theory Spec2Isabelle
  imports Complex_Main "HOL-Library.Multiset"
begin

section \<open>Numbers\<close>

text \<open>
  The matching engine of \<^verbatim>\<open>lib/matching.ts\<close> is modelled in its version with the
  order-alignment scorer and the matching options (the listing that follows the tests in
  \<^verbatim>\<open>lib/matching.test.ts\<close>); \<^verbatim>\<open>normalizePoints\<close> and \<^verbatim>\<open>modifiedHausdorffDistance\<close> are
  the same in both versions. Default parameter values are passed explicitly.

  The engine computes with JavaScript numbers.
  A number is modelled as a real, one of the two infinities, or NaN; the operations
  follow IEEE 754 on these four kinds. The operations of this section return the exact
  real result on finite operands (a zero divisor counts as \<open>+0\<close>; the sign of zero is
  not modelled). The rounding of a result to a double, with overflow to an infinity and
  underflow to zero, is the function \<open>binary64\<close> of the section on rounding below; the
  normalization is given there a second time with every operation rounded, and the two
  readings are compared where a property depends on the difference.
\<close>

datatype number = Fin real | PInf | NInf | NaN

fun num_neg :: "number \<Rightarrow> number" where
  "num_neg (Fin a) = Fin (- a)"
| "num_neg PInf = NInf"
| "num_neg NInf = PInf"
| "num_neg NaN = NaN"

fun num_add :: "number \<Rightarrow> number \<Rightarrow> number" where
  "num_add (Fin a) (Fin b) = Fin (a + b)"
| "num_add NaN _ = NaN"
| "num_add _ NaN = NaN"
| "num_add PInf NInf = NaN"
| "num_add NInf PInf = NaN"
| "num_add PInf _ = PInf"
| "num_add _ PInf = PInf"
| "num_add NInf _ = NInf"
| "num_add _ NInf = NInf"

definition num_sub :: "number \<Rightarrow> number \<Rightarrow> number" where
  "num_sub a b = num_add a (num_neg b)"

fun num_mul :: "number \<Rightarrow> number \<Rightarrow> number" where
  "num_mul (Fin a) (Fin b) = Fin (a * b)"
| "num_mul NaN _ = NaN"
| "num_mul _ NaN = NaN"
| "num_mul (Fin a) PInf = (if a = 0 then NaN else if 0 < a then PInf else NInf)"
| "num_mul (Fin a) NInf = (if a = 0 then NaN else if 0 < a then NInf else PInf)"
| "num_mul PInf (Fin b) = (if b = 0 then NaN else if 0 < b then PInf else NInf)"
| "num_mul NInf (Fin b) = (if b = 0 then NaN else if 0 < b then NInf else PInf)"
| "num_mul PInf PInf = PInf"
| "num_mul NInf NInf = PInf"
| "num_mul PInf NInf = NInf"
| "num_mul NInf PInf = NInf"

fun num_div :: "number \<Rightarrow> number \<Rightarrow> number" where
  "num_div (Fin a) (Fin b) =
     (if b = 0 then (if a = 0 then NaN else if 0 < a then PInf else NInf)
      else Fin (a / b))"
| "num_div NaN _ = NaN"
| "num_div _ NaN = NaN"
| "num_div (Fin a) _ = Fin 0"
| "num_div PInf (Fin b) = (if 0 \<le> b then PInf else NInf)"
| "num_div NInf (Fin b) = (if 0 \<le> b then NInf else PInf)"
| "num_div _ _ = NaN"

fun num_sqrt :: "number \<Rightarrow> number" where
  "num_sqrt (Fin a) = (if a < 0 then NaN else Fin (sqrt a))"
| "num_sqrt PInf = PInf"
| "num_sqrt NInf = NaN"
| "num_sqrt NaN = NaN"

fun num_abs :: "number \<Rightarrow> number" where
  "num_abs (Fin a) = Fin \<bar>a\<bar>"
| "num_abs PInf = PInf"
| "num_abs NInf = PInf"
| "num_abs NaN = NaN"

text \<open>\<^verbatim>\<open>Math.round\<close> rounds to the nearest integer, a half upwards: \<open>\<lfloor>a + 1/2\<rfloor>\<close>.\<close>

fun num_round :: "number \<Rightarrow> number" where
  "num_round (Fin a) = Fin (of_int (round a))"
| "num_round v = v"

text \<open>The comparisons \<^verbatim>\<open>a > b\<close>, \<^verbatim>\<open>a >= b\<close> and \<^verbatim>\<open>a === b\<close>; each is false when
  an operand is NaN.\<close>

fun num_gt :: "number \<Rightarrow> number \<Rightarrow> bool" where
  "num_gt (Fin a) (Fin b) = (b < a)"
| "num_gt NaN _ = False"
| "num_gt _ NaN = False"
| "num_gt PInf PInf = False"
| "num_gt PInf _ = True"
| "num_gt _ PInf = False"
| "num_gt NInf _ = False"
| "num_gt _ NInf = True"

definition num_eq :: "number \<Rightarrow> number \<Rightarrow> bool" where
  "num_eq a b = (a \<noteq> NaN \<and> a = b)"

definition num_ge :: "number \<Rightarrow> number \<Rightarrow> bool" where
  "num_ge a b = (num_gt a b \<or> num_eq a b)"

text \<open>\<^verbatim>\<open>Math.min\<close> and \<^verbatim>\<open>Math.max\<close> of an argument list: NaN if an argument is NaN,
  \<open>+\<infinity>\<close> respectively \<open>-\<infinity>\<close> for no arguments.\<close>

definition num_min2 :: "number \<Rightarrow> number \<Rightarrow> number" where
  "num_min2 a b = (if a = NaN \<or> b = NaN then NaN else if num_gt a b then b else a)"

definition num_max2 :: "number \<Rightarrow> number \<Rightarrow> number" where
  "num_max2 a b = (if a = NaN \<or> b = NaN then NaN else if num_gt b a then b else a)"

definition Math_min :: "number list \<Rightarrow> number" where
  "Math_min vs = fold (\<lambda>v acc. num_min2 acc v) vs PInf"

definition Math_max :: "number list \<Rightarrow> number" where
  "Math_max vs = fold (\<lambda>v acc. num_max2 acc v) vs NInf"

section \<open>Data model\<close>

text \<open>The interfaces \<^verbatim>\<open>Point\<close>, \<^verbatim>\<open>RouteImage\<close>, \<^verbatim>\<open>Route\<close>, \<^verbatim>\<open>SearchResult\<close> and
  \<^verbatim>\<open>MatchingOptions\<close>. The fields \<^verbatim>\<open>x\<close>, \<^verbatim>\<open>y\<close> and \<^verbatim>\<open>id\<close> are renamed, since the
  names are wanted for variables and for the identity function.\<close>

record Point =
  px :: number
  py :: number

record RouteImage =
  image_id :: string
  filename :: string
  points :: "Point list"
  normalizedPoints :: "Point list"

record Route =
  route_id :: string
  name :: string
  images :: "RouteImage list"
  createdAt :: string

record SearchResult =
  route :: Route
  similarity :: number
  matchedImageId :: string

text \<open>An absent optional field is \<open>None\<close>.\<close>

record MatchingOptions =
  maxDistance :: "number option"
  mhdWeight :: "number option"
  orderWeight :: "number option"

record Options =
  opt_maxDistance :: number
  opt_mhdWeight :: number
  opt_orderWeight :: number

definition DEFAULT_OPTIONS :: Options where
  "DEFAULT_OPTIONS =
     \<lparr>opt_maxDistance = Fin (6 / 10), opt_mhdWeight = Fin (6 / 10), opt_orderWeight = Fin (4 / 10)\<rparr>"

text \<open>\<^verbatim>\<open>{ ...DEFAULT_OPTIONS, ...options }\<close>: a field present in \<open>options\<close> replaces the default.\<close>

definition merge_options :: "Options \<Rightarrow> MatchingOptions \<Rightarrow> Options" where
  "merge_options d options =
     \<lparr>opt_maxDistance = (case maxDistance options of None \<Rightarrow> opt_maxDistance d | Some v \<Rightarrow> v),
      opt_mhdWeight = (case mhdWeight options of None \<Rightarrow> opt_mhdWeight d | Some v \<Rightarrow> v),
      opt_orderWeight = (case orderWeight options of None \<Rightarrow> opt_orderWeight d | Some v \<Rightarrow> v)\<rparr>"

section \<open>Geometry primitives and normalization\<close>

definition distance :: "Point \<Rightarrow> Point \<Rightarrow> number" where
  "distance a b =
     (let dx = num_sub (px a) (px b);
          dy = num_sub (py a) (py b)
      in num_sqrt (num_add (num_mul dx dx) (num_mul dy dy)))"

text \<open>\<^verbatim>\<open>values.reduce((sum, v) => sum + v, 0) / values.length\<close>\<close>

definition mean :: "number list \<Rightarrow> number" where
  "mean values =
     (if length values = 0 then Fin 0
      else num_div (fold (\<lambda>v sum. num_add sum v) values (Fin 0)) (Fin (real (length values))))"

definition normalizePoints :: "Point list \<Rightarrow> Point list" where
  "normalizePoints pts =
     (if length pts = 0 then []
      else if length pts = 1 then [\<lparr>px = Fin 0, py = Fin 0\<rparr>]
      else
        let centroid = \<lparr>px = mean (map px pts), py = mean (map py pts)\<rparr>;
            centered = map (\<lambda>p. \<lparr>px = num_sub (px p) (px centroid),
                                  py = num_sub (py p) (py centroid)\<rparr>) pts;
            squaredDistances =
              map (\<lambda>p. num_add (num_mul (px p) (px p)) (num_mul (py p) (py p))) centered;
            rms = num_sqrt (mean squaredDistances)
        in if num_eq rms (Fin 0) then centered
           else map (\<lambda>p. \<lparr>px = num_div (px p) rms, py = num_div (py p) rms\<rparr>) centered)"

section \<open>Modified Hausdorff distance\<close>

definition modifiedHausdorffDistance :: "Point list \<Rightarrow> Point list \<Rightarrow> number" where
  "modifiedHausdorffDistance A B =
     (if length A = 0 \<or> length B = 0 then PInf
      else
        let forwardDistances = map (\<lambda>a. Math_min (map (\<lambda>b. distance a b) B)) A;
            forwardDist = mean forwardDistances;
            reverseDistances = map (\<lambda>b. Math_min (map (\<lambda>a. distance a b) A)) B;
            reverseDist = mean reverseDistances
        in Math_max [forwardDist, reverseDist])"

definition distanceToSimilarity :: "number \<Rightarrow> number \<Rightarrow> number" where
  "distanceToSimilarity d maxDist =
     (if num_ge d maxDist then Fin 0
      else
        let sim = Math_max [Fin 0, num_sub (Fin 1) (num_div d maxDist)]
        in num_round (num_mul sim (Fin 100)))"

section \<open>Dynamic time warping\<close>

text \<open>
  The only exception the engine can raise is the \<^verbatim>\<open>TypeError\<close> of indexing a row that
  the table does not have. A read past the end of an array yields \<^verbatim>\<open>undefined\<close>, which
  arithmetic and \<^verbatim>\<open>Math.min\<close> turn into NaN; a write past the end extends the array.
\<close>

datatype error = TypeError | RangeError

definition array_get :: "number list \<Rightarrow> nat \<Rightarrow> number" where
  "array_get xs i = (if i < length xs then xs ! i else NaN)"

definition get_cell :: "number list list \<Rightarrow> nat \<Rightarrow> nat \<Rightarrow> error + number" where
  "get_cell t i j =
     (if i < length t then Inr (if j < length (t ! i) then t ! i ! j else NaN)
      else Inl TypeError)"

definition array_set :: "number list \<Rightarrow> nat \<Rightarrow> number \<Rightarrow> number list" where
  "array_set row j v =
     (if j < length row then row[j := v] else row @ replicate (j - length row) NaN @ [v])"

definition set_cell :: "number list list \<Rightarrow> nat \<Rightarrow> nat \<Rightarrow> number \<Rightarrow> error + number list list" where
  "set_cell t i j v =
     (if i < length t then Inr (t[i := array_set (t ! i) j v]) else Inl TypeError)"

text \<open>The body of the inner loop \<^verbatim>\<open>for (let j = 1; j <= m; j++)\<close> and the loop
  itself, on the table as state.\<close>

function dtw_inner ::
  "number list \<Rightarrow> number list \<Rightarrow> nat \<Rightarrow> nat \<Rightarrow> number list list \<Rightarrow> error + number list list"
where
  "dtw_inner seqA seqB i j dtw =
     (if j \<le> length seqB then
        (let cost = num_abs (num_sub (array_get seqA (i - 1)) (array_get seqB (j - 1)))
         in case get_cell dtw (i - 1) j of Inl e \<Rightarrow> Inl e | Inr ins \<Rightarrow>
            (case get_cell dtw i (j - 1) of Inl e \<Rightarrow> Inl e | Inr del \<Rightarrow>
            (case get_cell dtw (i - 1) (j - 1) of Inl e \<Rightarrow> Inl e | Inr mat \<Rightarrow>
            (case set_cell dtw i j (num_add cost (Math_min [ins, del, mat])) of
               Inl e \<Rightarrow> Inl e
             | Inr dtw' \<Rightarrow> dtw_inner seqA seqB i (j + 1) dtw'))))
      else Inr dtw)"
  by pat_completeness auto
termination
  by (relation "measure (\<lambda>(seqA, seqB, i, j, dtw). length seqB + 1 - j)") auto

declare dtw_inner.simps [simp del]

text \<open>The outer loop \<^verbatim>\<open>for (let i = 1; i <= n; i++)\<close>.\<close>

function dtw_outer ::
  "number list \<Rightarrow> number list \<Rightarrow> nat \<Rightarrow> number list list \<Rightarrow> error + number list list"
where
  "dtw_outer seqA seqB i dtw =
     (if i \<le> length seqA then
        (case dtw_inner seqA seqB i 1 dtw of
           Inl e \<Rightarrow> Inl e
         | Inr dtw' \<Rightarrow> dtw_outer seqA seqB (i + 1) dtw')
      else Inr dtw)"
  by pat_completeness auto
termination
  by (relation "measure (\<lambda>(seqA, seqB, i, dtw). length seqA + 1 - i)") auto

declare dtw_outer.simps [simp del]

definition dtwDistance :: "number list \<Rightarrow> number list \<Rightarrow> error + number" where
  "dtwDistance seqA seqB =
     (let n = length seqA; m = length seqB
      in if n = 0 \<or> m = 0 then Inr PInf
         else
           case set_cell (replicate (n + 1) (replicate (m + 1) PInf)) 0 0 (Fin 0) of
             Inl e \<Rightarrow> Inl e
           | Inr dtw0 \<Rightarrow>
           (case dtw_outer seqA seqB 1 dtw0 of
             Inl e \<Rightarrow> Inl e
           | Inr dtw \<Rightarrow>
           (case get_cell dtw n m of
             Inl e \<Rightarrow> Inl e
           | Inr r \<Rightarrow> Inr (num_div r (Fin (real (max n m)))))))"

section \<open>Relative order similarity\<close>

text \<open>
  \<^verbatim>\<open>Array.prototype.sort\<close> is stable. With a comparator that orders the elements
  consistently its result is the one sorted arrangement that keeps equal elements in their
  input order; the model is the stable insertion sort, which moves an element past those
  it compares greater than (a NaN comparison counts as equal).
\<close>

fun insert_by :: "('a \<Rightarrow> 'a \<Rightarrow> number) \<Rightarrow> 'a \<Rightarrow> 'a list \<Rightarrow> 'a list" where
  "insert_by cmp v [] = [v]"
| "insert_by cmp v (w # ws) =
     (if num_gt (cmp v w) (Fin 0) then w # insert_by cmp v ws else v # w # ws)"

definition sort_by :: "('a \<Rightarrow> 'a \<Rightarrow> number) \<Rightarrow> 'a list \<Rightarrow> 'a list" where
  "sort_by cmp vs = foldr (insert_by cmp) vs []"

text \<open>The local function \<^verbatim>\<open>normalize\<close> of \<^verbatim>\<open>relativeOrderSimilarity\<close>.\<close>

definition normalize_seq :: "number list \<Rightarrow> number list" where
  "normalize_seq seq =
     (let mn = Math_min seq;
          mx = Math_max seq
      in if num_eq mx mn then map (\<lambda>_. Fin (1 / 2)) seq
         else map (\<lambda>v. num_div (num_sub v mn) (num_sub mx mn)) seq)"

definition relativeOrderSimilarity :: "Point list \<Rightarrow> Point list \<Rightarrow> error + number" where
  "relativeOrderSimilarity pointsA pointsB =
     (if length pointsA = 0 \<or> length pointsB = 0 then Inr (Fin 0)
      else if length pointsA = 1 \<and> length pointsB = 1 then Inr (Fin 100)
      else
        let sortedA = sort_by (\<lambda>a b. num_sub (py a) (py b)) pointsA;
            sortedB = sort_by (\<lambda>a b. num_sub (py a) (py b)) pointsB;
            xSeqA = map px sortedA;
            xSeqB = map px sortedB;
            normA = normalize_seq xSeqA;
            normB = normalize_seq xSeqB
        in case dtwDistance normA normB of
             Inl e \<Rightarrow> Inl e
           | Inr dtwDist \<Rightarrow>
               let maxDist = Fin 1
               in if num_ge dtwDist maxDist then Inr (Fin 0)
                  else Inr (num_round (num_mul (num_sub (Fin 1) (num_div dtwDist maxDist)) (Fin 100))))"

section \<open>Combiner\<close>

text \<open>The parameter \<^verbatim>\<open>weights: { mhd: number; order: number }\<close>; its default is
  \<^verbatim>\<open>{ mhd: 0.6, order: 0.4 }\<close>.\<close>

record Weights =
  w_mhd :: number
  w_order :: number

definition combinedSimilarity :: "number \<Rightarrow> number \<Rightarrow> Weights \<Rightarrow> number" where
  "combinedSimilarity mhdSimilarity orderSimilarity weights =
     num_round (num_add (num_mul (w_mhd weights) mhdSimilarity)
                        (num_mul (w_order weights) orderSimilarity))"

section \<open>Search\<close>

text \<open>The loop over the images of a route, with \<^verbatim>\<open>bestSimilarity\<close> and
  \<^verbatim>\<open>bestImageId\<close> as state, and the loop over the routes, with \<^verbatim>\<open>results\<close> as state.\<close>

fun best_image_loop ::
  "Point list \<Rightarrow> Point list \<Rightarrow> Options \<Rightarrow> RouteImage list \<Rightarrow> number \<Rightarrow> string
   \<Rightarrow> error + number \<times> string"
where
  "best_image_loop queryPoints normalizedQuery opts [] bestSimilarity bestImageId =
     Inr (bestSimilarity, bestImageId)"
| "best_image_loop queryPoints normalizedQuery opts (img # rest) bestSimilarity bestImageId =
     (let mhd = modifiedHausdorffDistance normalizedQuery (normalizedPoints img);
          mhdSim = distanceToSimilarity mhd (opt_maxDistance opts)
      in case relativeOrderSimilarity queryPoints (points img) of
           Inl e \<Rightarrow> Inl e
         | Inr orderSim \<Rightarrow>
             let sim = combinedSimilarity mhdSim orderSim
                         \<lparr>w_mhd = opt_mhdWeight opts, w_order = opt_orderWeight opts\<rparr>
             in if num_gt sim bestSimilarity
                then best_image_loop queryPoints normalizedQuery opts rest sim (image_id img)
                else best_image_loop queryPoints normalizedQuery opts rest
                       bestSimilarity bestImageId)"

fun routes_loop ::
  "Point list \<Rightarrow> Point list \<Rightarrow> Options \<Rightarrow> Route list \<Rightarrow> SearchResult list
   \<Rightarrow> error + SearchResult list"
where
  "routes_loop queryPoints normalizedQuery opts [] results = Inr results"
| "routes_loop queryPoints normalizedQuery opts (r # rest) results =
     (case best_image_loop queryPoints normalizedQuery opts (images r) (Fin 0) [] of
        Inl e \<Rightarrow> Inl e
      | Inr (bestSimilarity, bestImageId) \<Rightarrow>
          routes_loop queryPoints normalizedQuery opts rest
            (results @ [\<lparr>route = r, similarity = bestSimilarity, matchedImageId = bestImageId\<rparr>]))"

text \<open>\<^verbatim>\<open>results.slice(0, maxResults)\<close> for an integer \<^verbatim>\<open>maxResults\<close>: a negative end
  counts from the end of the array.\<close>

definition slice0 :: "'a list \<Rightarrow> int \<Rightarrow> 'a list" where
  "slice0 vs e =
     (let len = int (length vs);
          final = (if e < 0 then max (len + e) 0 else min e len)
      in take (nat final) vs)"

definition searchRoutes ::
  "Point list \<Rightarrow> Route list \<Rightarrow> int \<Rightarrow> MatchingOptions \<Rightarrow> error + SearchResult list"
where
  "searchRoutes queryPoints routes maxResults options =
     (let opts = merge_options DEFAULT_OPTIONS options;
          normalizedQuery = normalizePoints queryPoints
      in case routes_loop queryPoints normalizedQuery opts routes [] of
           Inl e \<Rightarrow> Inl e
         | Inr results \<Rightarrow>
             Inr (slice0 (sort_by (\<lambda>a b. num_sub (similarity b) (similarity a)) results)
                    maxResults))"

section \<open>Finite inputs and their real-valued reading\<close>

text \<open>
  The documented input domain is arrays of finite numbers. A finite point is given by a
  pair of reals. The definitions below are the quantities of the program over the reals:
  the Euclidean distance, the nearest-neighbour distance of a point to a set and its
  mean, and the centroid, the centred points and the RMS radius of the normalization.
  \<open>scale_translate s t P\<close> is the point set \<open>s\<cdot>P + t\<close>.
\<close>

definition fin_pt :: "real \<times> real \<Rightarrow> Point" where
  "fin_pt p = \<lparr>px = Fin (fst p), py = Fin (snd p)\<rparr>"

definition euclid :: "real \<times> real \<Rightarrow> real \<times> real \<Rightarrow> real" where
  "euclid p q = sqrt ((fst p - fst q)\<^sup>2 + (snd p - snd q)\<^sup>2)"

definition nearest :: "(real \<times> real) list \<Rightarrow> real \<times> real \<Rightarrow> real" where
  "nearest B a = Min ((\<lambda>b. euclid a b) ` set B)"

definition mean_nearest :: "(real \<times> real) list \<Rightarrow> (real \<times> real) list \<Rightarrow> real" where
  "mean_nearest A B = (\<Sum>a\<leftarrow>A. nearest B a) / real (length A)"

definition centroid :: "(real \<times> real) list \<Rightarrow> real \<times> real" where
  "centroid P = (sum_list (map fst P) / real (length P), sum_list (map snd P) / real (length P))"

definition centered :: "(real \<times> real) list \<Rightarrow> (real \<times> real) list" where
  "centered P = map (\<lambda>p. (fst p - fst (centroid P), snd p - snd (centroid P))) P"

definition rms :: "(real \<times> real) list \<Rightarrow> real" where
  "rms P = sqrt (sum_list (map (\<lambda>p. fst p * fst p + snd p * snd p) (centered P)) / real (length P))"

definition scale_translate :: "real \<Rightarrow> real \<times> real \<Rightarrow> (real \<times> real) list \<Rightarrow> (real \<times> real) list" where
  "scale_translate s t P = map (\<lambda>p. (s * fst p + fst t, s * snd p + snd t)) P"

section \<open>Reference definitions\<close>

text \<open>
  The dynamic-programming table of the specification: \<open>table[0][0] = 0\<close>, the rest of row
  and column 0 is \<open>+\<infinity>\<close>, and
  \<open>table[i][j] = |seqA[i] - seqB[j]| + min (table[i-1][j], table[i][j-1], table[i-1][j-1])\<close>;
  the distance is \<open>table[n][m] / max n m\<close>.
\<close>

fun dtw_table :: "number list \<Rightarrow> number list \<Rightarrow> nat \<Rightarrow> nat \<Rightarrow> number" where
  "dtw_table seqA seqB 0 0 = Fin 0"
| "dtw_table seqA seqB 0 (Suc j) = PInf"
| "dtw_table seqA seqB (Suc i) 0 = PInf"
| "dtw_table seqA seqB (Suc i) (Suc j) =
     num_add (num_abs (num_sub (seqA ! i) (seqB ! j)))
             (Math_min [dtw_table seqA seqB i (Suc j),
                        dtw_table seqA seqB (Suc i) j,
                        dtw_table seqA seqB i j])"

definition dtw_reference :: "number list \<Rightarrow> number list \<Rightarrow> number" where
  "dtw_reference seqA seqB =
     (if seqA = [] \<or> seqB = [] then PInf
      else num_div (dtw_table seqA seqB (length seqA) (length seqB))
                   (Fin (real (max (length seqA) (length seqB)))))"

text \<open>The ordered projection (sort by \<open>y\<close> ascending, take the \<open>x\<close> coordinates) and the
  min-max normalization of the specification, over the reals.\<close>

definition orderedProjection :: "(real \<times> real) list \<Rightarrow> real list" where
  "orderedProjection P = map fst (sort_key snd P)"

definition minmax :: "real list \<Rightarrow> real list" where
  "minmax xs =
     (if Max (set xs) = Min (set xs) then map (\<lambda>_. 1 / 2) xs
      else map (\<lambda>v. (v - Min (set xs)) / (Max (set xs) - Min (set xs))) xs)"

text \<open>The combined similarity that the body of the image loop computes for one image.\<close>

definition image_similarity :: "Point list \<Rightarrow> Options \<Rightarrow> RouteImage \<Rightarrow> error + number" where
  "image_similarity queryPoints opts img =
     (let mhd = modifiedHausdorffDistance (normalizePoints queryPoints) (normalizedPoints img);
          mhdSim = distanceToSimilarity mhd (opt_maxDistance opts)
      in case relativeOrderSimilarity queryPoints (points img) of
           Inl e \<Rightarrow> Inl e
         | Inr orderSim \<Rightarrow>
             Inr (combinedSimilarity mhdSim orderSim
                    \<lparr>w_mhd = opt_mhdWeight opts, w_order = opt_orderWeight opts\<rparr>))"


section \<open>Auxiliary predicates\<close>

text \<open>Finite numbers, points, images, routes and options; the invariant of the table
  loops; and the description of a route's entry by the scores \<open>zs\<close> of its images.\<close>

fun is_fin :: "number \<Rightarrow> bool" where
  "is_fin (Fin a) = True"
| "is_fin v = False"

fun fin_val :: "number \<Rightarrow> real" where
  "fin_val (Fin a) = a"
| "fin_val v = 0"

definition finite_point :: "Point \<Rightarrow> bool" where
  "finite_point p \<longleftrightarrow> is_fin (px p) \<and> is_fin (py p)"

definition finite_image :: "RouteImage \<Rightarrow> bool" where
  "finite_image img \<longleftrightarrow>
     list_all finite_point (points img) \<and> list_all finite_point (normalizedPoints img)"

definition finite_route :: "Route \<Rightarrow> bool" where
  "finite_route r \<longleftrightarrow> list_all finite_image (images r)"

definition finite_options :: "MatchingOptions \<Rightarrow> bool" where
  "finite_options options \<longleftrightarrow>
     (case maxDistance options of None \<Rightarrow> True | Some v \<Rightarrow> is_fin v) \<and>
     (case mhdWeight options of None \<Rightarrow> True | Some v \<Rightarrow> is_fin v) \<and>
     (case orderWeight options of None \<Rightarrow> True | Some v \<Rightarrow> is_fin v)"

definition finite_opts :: "Options \<Rightarrow> bool" where
  "finite_opts opts \<longleftrightarrow>
     is_fin (opt_maxDistance opts) \<and> is_fin (opt_mhdWeight opts) \<and> is_fin (opt_orderWeight opts)"

definition nonneg_or_inf :: "number \<Rightarrow> bool" where
  "nonneg_or_inf v \<longleftrightarrow> (case v of Fin d \<Rightarrow> 0 \<le> d | PInf \<Rightarrow> True | _ \<Rightarrow> False)"

definition dtw_inv :: "number list \<Rightarrow> number list \<Rightarrow> number list list \<Rightarrow> nat \<Rightarrow> nat \<Rightarrow> bool" where
  "dtw_inv seqA seqB t i j \<longleftrightarrow>
     length t = Suc (length seqA) \<and>
     (\<forall>r \<le> length seqA. length (t ! r) = Suc (length seqB)) \<and>
     (\<forall>r \<le> length seqA. \<forall>c \<le> length seqB.
        r < i \<or> (r = i \<and> c < j) \<or> c = 0 \<longrightarrow> t ! r ! c = dtw_table seqA seqB r c)"

definition scored_entry :: "Point list \<Rightarrow> Options \<Rightarrow> SearchResult \<Rightarrow> real list \<Rightarrow> bool" where
  "scored_entry q opts e zs \<longleftrightarrow>
     map (image_similarity q opts) (images (route e)) = map (\<lambda>z. Inr (Fin z)) zs \<and>
     similarity e = Fin (Max (insert 0 (set zs))) \<and>
     ((\<forall>z\<in>set zs. z \<le> 0) \<longrightarrow> matchedImageId e = []) \<and>
     (\<forall>i<length zs. 0 < zs ! i \<and> (\<forall>z\<in>set zs. z \<le> zs ! i) \<and> (\<forall>j<i. zs ! j < zs ! i)
        \<longrightarrow> matchedImageId e = image_id (images (route e) ! i))"

section \<open>Rounding to binary64\<close>

text \<open>
  A JavaScript number is an IEEE 754 double. \<open>binary64 v\<close> is the double nearest to the
  real \<open>v\<close>, ties going to the even significand: the exponent \<open>e\<close> of \<open>v\<close> is at least
  \<open>-1022\<close> (below it the spacing of the subnormal numbers, \<open>2 powi (-1074)\<close>, applies, so
  that tiny values round to zero), the significand has 53 bits, and a rounded magnitude
  of \<open>2 powi 1024\<close> or more is an infinity.
\<close>

definition round_even :: "real \<Rightarrow> int" where
  "round_even v =
     (let f = \<lfloor>v\<rfloor>
      in if v - of_int f < 1 / 2 then f
         else if 1 / 2 < v - of_int f then f + 1
         else if even f then f else f + 1)"

definition binary64 :: "real \<Rightarrow> number" where
  "binary64 v =
     (if v = 0 then Fin 0
      else
        let e = max \<lfloor>log 2 \<bar>v\<bar>\<rfloor> (- 1022);
            ulp = 2 powi (e - 52);
            y = of_int (round_even (v / ulp)) * ulp
        in if 2 powi 1024 \<le> \<bar>y\<bar> then (if 0 < v then PInf else NInf) else Fin y)"

text \<open>
  \<open>rnd r\<close> applies the rounding \<open>r\<close> to a finite result and leaves infinities and NaN as
  they are. \<open>mean_r\<close> and \<open>normalizePoints_r\<close> are \<^verbatim>\<open>mean\<close> and \<^verbatim>\<open>normalizePoints\<close> with
  the result of every addition, subtraction, multiplication, division and square root
  rounded by \<open>r\<close>: with \<open>r = Fin\<close> they are the exact functions above, with
  \<open>r = binary64\<close> they compute as the engine does. \<open>scale_translate_r\<close> is the point set
  \<^verbatim>\<open>s * p + t\<close> computed in the same way.
\<close>

fun rnd :: "(real \<Rightarrow> number) \<Rightarrow> number \<Rightarrow> number" where
  "rnd r (Fin v) = r v"
| "rnd r v = v"

definition mean_r :: "(real \<Rightarrow> number) \<Rightarrow> number list \<Rightarrow> number" where
  "mean_r r values =
     (if length values = 0 then Fin 0
      else rnd r (num_div (fold (\<lambda>v sum. rnd r (num_add sum v)) values (Fin 0))
                          (Fin (real (length values)))))"

definition normalizePoints_r :: "(real \<Rightarrow> number) \<Rightarrow> Point list \<Rightarrow> Point list" where
  "normalizePoints_r r pts =
     (if length pts = 0 then []
      else if length pts = 1 then [\<lparr>px = Fin 0, py = Fin 0\<rparr>]
      else
        let centroid = \<lparr>px = mean_r r (map px pts), py = mean_r r (map py pts)\<rparr>;
            centered = map (\<lambda>p. \<lparr>px = rnd r (num_sub (px p) (px centroid)),
                                  py = rnd r (num_sub (py p) (py centroid))\<rparr>) pts;
            squaredDistances =
              map (\<lambda>p. rnd r (num_add (rnd r (num_mul (px p) (px p)))
                                        (rnd r (num_mul (py p) (py p))))) centered;
            rms = rnd r (num_sqrt (mean_r r squaredDistances))
        in if num_eq rms (Fin 0) then centered
           else map (\<lambda>p. \<lparr>px = rnd r (num_div (px p) rms),
                           py = rnd r (num_div (py p) rms)\<rparr>) centered)"

definition scale_translate_r ::
  "(real \<Rightarrow> number) \<Rightarrow> number \<Rightarrow> Point \<Rightarrow> Point list \<Rightarrow> Point list" where
  "scale_translate_r r s t pts =
     map (\<lambda>p. \<lparr>px = rnd r (num_add (rnd r (num_mul s (px p))) (px t)),
                 py = rnd r (num_add (rnd r (num_mul s (py p))) (py t))\<rparr>) pts"

section \<open>Spread calls and the argument limit\<close>

text \<open>
  \<^verbatim>\<open>Math.min(...xs)\<close> and \<^verbatim>\<open>Math.max(...xs)\<close> pass every element of the array as an
  argument of the call. An engine accepts a bounded number of arguments, here the
  parameter \<open>max_args\<close>, and raises a \<^verbatim>\<open>RangeError\<close> beyond it. \<open>spread\<close> is such a call,
  \<open>map_err\<close> is \<^verbatim>\<open>xs.map(f)\<close> for an \<^verbatim>\<open>f\<close> that may raise, and the functions with the
  suffix \<open>_e\<close> are the functions above that make a spread call, or call one that does,
  with the error propagated. \<^verbatim>\<open>normalizePoints\<close>, \<^verbatim>\<open>mean\<close>, \<^verbatim>\<open>distanceToSimilarity\<close> and
  \<^verbatim>\<open>combinedSimilarity\<close> make no spread call (their \<^verbatim>\<open>Math.max\<close> has two explicit
  arguments) and index no array.
\<close>

definition spread :: "nat \<Rightarrow> (number list \<Rightarrow> number) \<Rightarrow> number list \<Rightarrow> error + number" where
  "spread max_args f args = (if max_args < length args then Inl RangeError else Inr (f args))"

fun map_err :: "('a \<Rightarrow> error + 'b) \<Rightarrow> 'a list \<Rightarrow> error + 'b list" where
  "map_err f [] = Inr []"
| "map_err f (v # vs) =
     (case f v of
        Inl e \<Rightarrow> Inl e
      | Inr w \<Rightarrow> (case map_err f vs of Inl e \<Rightarrow> Inl e | Inr ws \<Rightarrow> Inr (w # ws)))"

definition modifiedHausdorffDistance_e :: "nat \<Rightarrow> Point list \<Rightarrow> Point list \<Rightarrow> error + number" where
  "modifiedHausdorffDistance_e max_args A B =
     (if length A = 0 \<or> length B = 0 then Inr PInf
      else
        case map_err (\<lambda>a. spread max_args Math_min (map (\<lambda>b. distance a b) B)) A of
          Inl e \<Rightarrow> Inl e
        | Inr forwardDistances \<Rightarrow>
            let forwardDist = mean forwardDistances
            in case map_err (\<lambda>b. spread max_args Math_min (map (\<lambda>a. distance a b) A)) B of
                 Inl e \<Rightarrow> Inl e
               | Inr reverseDistances \<Rightarrow>
                   let reverseDist = mean reverseDistances
                   in Inr (Math_max [forwardDist, reverseDist]))"

definition normalize_seq_e :: "nat \<Rightarrow> number list \<Rightarrow> error + number list" where
  "normalize_seq_e max_args seq =
     (case spread max_args Math_min seq of
        Inl e \<Rightarrow> Inl e
      | Inr mn \<Rightarrow>
          (case spread max_args Math_max seq of
             Inl e \<Rightarrow> Inl e
           | Inr mx \<Rightarrow>
               Inr (if num_eq mx mn then map (\<lambda>_. Fin (1 / 2)) seq
                    else map (\<lambda>v. num_div (num_sub v mn) (num_sub mx mn)) seq)))"

definition relativeOrderSimilarity_e :: "nat \<Rightarrow> Point list \<Rightarrow> Point list \<Rightarrow> error + number" where
  "relativeOrderSimilarity_e max_args pointsA pointsB =
     (if length pointsA = 0 \<or> length pointsB = 0 then Inr (Fin 0)
      else if length pointsA = 1 \<and> length pointsB = 1 then Inr (Fin 100)
      else
        let sortedA = sort_by (\<lambda>a b. num_sub (py a) (py b)) pointsA;
            sortedB = sort_by (\<lambda>a b. num_sub (py a) (py b)) pointsB;
            xSeqA = map px sortedA;
            xSeqB = map px sortedB
        in case normalize_seq_e max_args xSeqA of
             Inl e \<Rightarrow> Inl e
           | Inr normA \<Rightarrow>
           (case normalize_seq_e max_args xSeqB of
             Inl e \<Rightarrow> Inl e
           | Inr normB \<Rightarrow>
           (case dtwDistance normA normB of
             Inl e \<Rightarrow> Inl e
           | Inr dtwDist \<Rightarrow>
               let maxDist = Fin 1
               in if num_ge dtwDist maxDist then Inr (Fin 0)
                  else Inr (num_round (num_mul (num_sub (Fin 1) (num_div dtwDist maxDist))
                                               (Fin 100))))))"

fun best_image_loop_e ::
  "nat \<Rightarrow> Point list \<Rightarrow> Point list \<Rightarrow> Options \<Rightarrow> RouteImage list \<Rightarrow> number \<Rightarrow> string
   \<Rightarrow> error + number \<times> string"
where
  "best_image_loop_e max_args queryPoints normalizedQuery opts [] bestSimilarity bestImageId =
     Inr (bestSimilarity, bestImageId)"
| "best_image_loop_e max_args queryPoints normalizedQuery opts (img # rest)
     bestSimilarity bestImageId =
     (case modifiedHausdorffDistance_e max_args normalizedQuery (normalizedPoints img) of
        Inl e \<Rightarrow> Inl e
      | Inr mhd \<Rightarrow>
          let mhdSim = distanceToSimilarity mhd (opt_maxDistance opts)
          in case relativeOrderSimilarity_e max_args queryPoints (points img) of
               Inl e \<Rightarrow> Inl e
             | Inr orderSim \<Rightarrow>
                 let sim = combinedSimilarity mhdSim orderSim
                             \<lparr>w_mhd = opt_mhdWeight opts, w_order = opt_orderWeight opts\<rparr>
                 in if num_gt sim bestSimilarity
                    then best_image_loop_e max_args queryPoints normalizedQuery opts rest
                           sim (image_id img)
                    else best_image_loop_e max_args queryPoints normalizedQuery opts rest
                           bestSimilarity bestImageId)"

fun routes_loop_e ::
  "nat \<Rightarrow> Point list \<Rightarrow> Point list \<Rightarrow> Options \<Rightarrow> Route list \<Rightarrow> SearchResult list
   \<Rightarrow> error + SearchResult list"
where
  "routes_loop_e max_args queryPoints normalizedQuery opts [] results = Inr results"
| "routes_loop_e max_args queryPoints normalizedQuery opts (r # rest) results =
     (case best_image_loop_e max_args queryPoints normalizedQuery opts (images r) (Fin 0) [] of
        Inl e \<Rightarrow> Inl e
      | Inr (bestSimilarity, bestImageId) \<Rightarrow>
          routes_loop_e max_args queryPoints normalizedQuery opts rest
            (results @ [\<lparr>route = r, similarity = bestSimilarity, matchedImageId = bestImageId\<rparr>]))"

definition searchRoutes_e ::
  "nat \<Rightarrow> Point list \<Rightarrow> Route list \<Rightarrow> int \<Rightarrow> MatchingOptions \<Rightarrow> error + SearchResult list"
where
  "searchRoutes_e max_args queryPoints routes maxResults options =
     (let opts = merge_options DEFAULT_OPTIONS options;
          normalizedQuery = normalizePoints queryPoints
      in case routes_loop_e max_args queryPoints normalizedQuery opts routes [] of
           Inl e \<Rightarrow> Inl e
         | Inr results \<Rightarrow>
             Inr (slice0 (sort_by (\<lambda>a b. num_sub (similarity b) (similarity a)) results)
                    maxResults))"

definition within_args :: "nat \<Rightarrow> Route \<Rightarrow> bool" where
  "within_args max_args r \<longleftrightarrow>
     list_all (\<lambda>img. length (points img) \<le> max_args \<and> length (normalizedPoints img) \<le> max_args)
       (images r)"

section \<open>Example data\<close>

definition origin :: Point where
  "origin = \<lparr>px = Fin 0, py = Fin 0\<rparr>"

definition example_image :: RouteImage where
  "example_image =
     \<lparr>image_id = ''img-1'', filename = ''images/1.jpg'', points = [origin],
      normalizedPoints = [origin]\<rparr>"

definition example_route :: Route where
  "example_route =
     \<lparr>route_id = ''1'', name = ''Point'', images = [example_image], createdAt = ''''\<rparr>"

definition no_options :: MatchingOptions where
  "no_options = \<lparr>maxDistance = None, mhdWeight = None, orderWeight = None\<rparr>"

definition empty_image :: RouteImage where
  "empty_image =
     \<lparr>image_id = ''img-0'', filename = ''images/0.jpg'', points = [], normalizedPoints = []\<rparr>"

definition tie_route :: Route where
  "tie_route =
     \<lparr>route_id = ''2'', name = ''Tie'',
      images = [empty_image, example_image, example_image\<lparr>image_id := ''img-2''\<rparr>],
      createdAt = ''''\<rparr>"

definition untapped_route :: Route where
  "untapped_route =
     \<lparr>route_id = ''3'', name = ''Untapped'', images = [empty_image], createdAt = ''''\<rparr>"

section \<open>Normalization\<close>

lemma fold_add_Fin:
  "fold (\<lambda>v sum. num_add sum v) (map Fin xs) (Fin s) = Fin (s + sum_list xs)"
  by (induction xs arbitrary: s) (simp_all add: add.assoc)

lemma mean_Fin:
  "mean (map Fin xs) = Fin (if xs = [] then 0 else sum_list xs / real (length xs))"
  by (simp add: mean_def fold_add_Fin)

lemma fold_min_Fin:
  "fold (\<lambda>v acc. num_min2 acc v) (map Fin xs) (Fin a) = Fin (Min (insert a (set xs)))"
proof (induction xs arbitrary: a)
  case Nil
  show ?case by simp
next
  case (Cons x xs)
  have "num_min2 (Fin a) (Fin x) = Fin (min a x)"
    by (simp add: num_min2_def min_def)
  moreover have "Min (insert (min a x) (set xs)) = Min (insert a (insert x (set xs)))"
    by (cases "xs = []") (simp_all add: min.assoc)
  ultimately show ?case using Cons.IH [of "min a x"] by simp
qed

lemma Math_min_Fin: "xs \<noteq> [] \<Longrightarrow> Math_min (map Fin xs) = Fin (Min (set xs))"
proof (cases xs)
  case Nil
  assume "xs \<noteq> []"
  with Nil show ?thesis by simp
next
  case (Cons x ys)
  have "num_min2 PInf (Fin x) = Fin x"
    by (simp add: num_min2_def)
  then show ?thesis
    using Cons fold_min_Fin [of ys x] by (simp add: Math_min_def)
qed

lemma Math_max_pair_Fin: "Math_max [Fin a, Fin b] = Fin (max a b)"
  by (simp add: Math_max_def num_max2_def max_def)

lemma distance_fin: "distance (fin_pt p) (fin_pt q) = Fin (euclid p q)"
proof -
  have "\<not> (fst p - fst q) * (fst p - fst q) + (snd p - snd q) * (snd p - snd q) < 0"
    by (simp add: not_less)
  then show ?thesis
    by (simp add: distance_def fin_pt_def euclid_def num_sub_def power2_eq_square Let_def)
qed

lemma euclid_sym: "euclid p q = euclid q p"
  by (simp add: euclid_def power2_commute)

lemma nearest_fin:
  "B \<noteq> [] \<Longrightarrow> Math_min (map (\<lambda>b. distance (fin_pt a) (fin_pt b)) B) = Fin (nearest B a)"
  using Math_min_Fin [of "map (euclid a) B"]
  by (simp add: distance_fin nearest_def comp_def)

lemma nearest_fin_rev:
  "A \<noteq> [] \<Longrightarrow> Math_min (map (\<lambda>a. distance (fin_pt a) (fin_pt b)) A) = Fin (nearest A b)"
  using Math_min_Fin [of "map (\<lambda>a. euclid a b) A"]
  by (simp add: distance_fin nearest_def comp_def euclid_sym [of b])

lemma mhd_fin:
  assumes "A \<noteq> []" and "B \<noteq> []"
  shows "modifiedHausdorffDistance (map fin_pt A) (map fin_pt B)
         = Fin (max (mean_nearest A B) (mean_nearest B A))"
proof -
  have f: "map (\<lambda>a. Math_min (map (\<lambda>b. distance a b) (map fin_pt B))) (map fin_pt A)
           = map Fin (map (nearest B) A)"
    using assms(2) by (simp add: comp_def nearest_fin)
  have r: "map (\<lambda>b. Math_min (map (\<lambda>a. distance a b) (map fin_pt A))) (map fin_pt B)
           = map Fin (map (nearest A) B)"
    using assms(1) by (simp add: comp_def nearest_fin_rev)
  show ?thesis
    unfolding modifiedHausdorffDistance_def Let_def f r mean_Fin
    using assms by (simp add: Math_max_pair_Fin mean_nearest_def)
qed

lemma sum_sq_nonneg: "0 \<le> sum_list (map (\<lambda>p. fst p * fst p + snd p * snd p) (Q :: (real \<times> real) list))"
  by (rule sum_list_nonneg) auto

lemma normalizePoints_fin:
  assumes "2 \<le> length P"
  shows "normalizePoints (map fin_pt P) =
         (if rms P = 0 then map fin_pt (centered P)
          else map (\<lambda>p. fin_pt (fst p / rms P, snd p / rms P)) (centered P))"
proof -
  have ne: "P \<noteq> []" using assms by auto
  have mx: "mean (map px (map fin_pt P)) = Fin (fst (centroid P))"
    using ne mean_Fin [of "map fst P"] by (simp add: comp_def fin_pt_def centroid_def)
  have my: "mean (map py (map fin_pt P)) = Fin (snd (centroid P))"
    using ne mean_Fin [of "map snd P"] by (simp add: comp_def fin_pt_def centroid_def)
  have c: "map (\<lambda>p. \<lparr>px = num_sub (px p) (Fin (fst (centroid P))),
                      py = num_sub (py p) (Fin (snd (centroid P)))\<rparr>) (map fin_pt P)
           = map fin_pt (centered P)"
    by (simp add: centered_def fin_pt_def num_sub_def comp_def)
  have sq: "map (\<lambda>p. num_add (num_mul (px p) (px p)) (num_mul (py p) (py p)))
              (map fin_pt (centered P))
            = map Fin (map (\<lambda>p. fst p * fst p + snd p * snd p) (centered P))"
    by (simp add: fin_pt_def comp_def)
  have cne: "centered P \<noteq> []" using ne by (simp add: centered_def)
  have len: "length (centered P) = length P" by (simp add: centered_def)
  have r: "num_sqrt (mean (map Fin (map (\<lambda>p. fst p * fst p + snd p * snd p) (centered P))))
           = Fin (rms P)"
    unfolding mean_Fin using cne sum_sq_nonneg [of "centered P"]
    by (simp add: rms_def len not_less)
  have d: "map (\<lambda>p. \<lparr>px = num_div (px p) (Fin (rms P)), py = num_div (py p) (Fin (rms P))\<rparr>)
             (map fin_pt (centered P))
           = (if rms P = 0 then map (\<lambda>p. \<lparr>px = num_div (px p) (Fin (rms P)), py = num_div (py p) (Fin (rms P))\<rparr>)
             (map fin_pt (centered P)) else map (\<lambda>p. fin_pt (fst p / rms P, snd p / rms P)) (centered P))"
    by (simp add: fin_pt_def comp_def)
  have "normalizePoints (map fin_pt P) =
        (if num_eq (Fin (rms P)) (Fin 0) then map fin_pt (centered P)
         else map (\<lambda>p. \<lparr>px = num_div (px p) (Fin (rms P)), py = num_div (py p) (Fin (rms P))\<rparr>)
             (map fin_pt (centered P)))"
    unfolding normalizePoints_def Let_def Point.simps mx my c sq r
    using assms ne by simp
  then show ?thesis using d by (simp add: num_eq_def)
qed

lemma sum_list_affine:
  "sum_list (map (\<lambda>p. s * f p + a) P) = s * sum_list (map f P) + real (length P) * (a::real)"
  by (induction P) (simp_all add: algebra_simps)

lemma centroid_scale_translate:
  assumes "P \<noteq> []"
  shows "centroid (scale_translate s t P)
         = (s * fst (centroid P) + fst t, s * snd (centroid P) + snd t)"
  using assms
  by (simp add: centroid_def scale_translate_def comp_def sum_list_affine add_divide_distrib)

lemma centered_scale_translate:
  assumes "P \<noteq> []"
  shows "centered (scale_translate s t P) = map (\<lambda>p. (s * fst p, s * snd p)) (centered P)"
  unfolding centered_def centroid_scale_translate [OF assms]
  by (simp add: scale_translate_def comp_def algebra_simps)

lemma sum_list_scale: "sum_list (map (\<lambda>p. s * f p) P) = s * sum_list (map f P :: real list)"
  by (induction P) (simp_all add: algebra_simps)

lemma rms_scale_translate:
  assumes "P \<noteq> []" and "0 < s"
  shows "rms (scale_translate s t P) = s * rms P"
proof -
  let ?q = "\<lambda>p::real \<times> real. fst p * fst p + snd p * snd p"
  have "sum_list (map ?q (centered (scale_translate s t P)))
        = sum_list (map (\<lambda>p. (s * s) * ?q p) (centered P))"
    unfolding centered_scale_translate [OF assms(1)]
    by (simp add: comp_def algebra_simps)
  also have "\<dots> = (s * s) * sum_list (map ?q (centered P))"
    by (rule sum_list_scale)
  finally have e: "sum_list (map ?q (centered (scale_translate s t P)))
                   = (s * s) * sum_list (map ?q (centered P))" .
  have "length (scale_translate s t P) = length P"
    by (simp add: scale_translate_def)
  then have "rms (scale_translate s t P)
             = sqrt ((s * s) * (sum_list (map ?q (centered P)) / real (length P)))"
    unfolding rms_def e by simp
  also have "\<dots> = sqrt (s * s) * sqrt (sum_list (map ?q (centered P)) / real (length P))"
    by (rule real_sqrt_mult)
  also have "\<dots> = s * rms P"
    using assms(2) by (simp add: rms_def)
  finally show ?thesis .
qed

lemma rms_zero_centered:
  assumes "P \<noteq> []" and "rms P = 0"
  shows "\<forall>p \<in> set (centered P). p = (0, 0)"
proof -
  let ?q = "\<lambda>p::real \<times> real. fst p * fst p + snd p * snd p"
  have "sum_list (map ?q (centered P)) = 0"
    using assms by (simp add: rms_def)
  moreover have "\<forall>v \<in> set (map ?q (centered P)). 0 \<le> v"
    by auto
  ultimately have "\<forall>v \<in> set (map ?q (centered P)). v = 0"
    using sum_list_nonneg_eq_0_iff [of "map ?q (centered P)"] by blast
  then have "\<forall>p \<in> set (centered P). ?q p = 0"
    by simp
  then show ?thesis
    by (auto simp: sum_squares_eq_zero_iff prod_eq_iff)
qed

text \<open>
  Over the reals, normalization does not see a translation or a positive uniform
  scaling of its input: for every finite point set \<open>P\<close>, translation \<open>t\<close> and scale
  \<open>s > 0\<close>, \<open>normalizePoints (s\<cdot>P + t) = normalizePoints P\<close>.
\<close>

lemma normalize_invariant_exact:
  assumes "0 < s"
  shows "normalizePoints (map fin_pt (scale_translate s t P)) = normalizePoints (map fin_pt P)"
proof -
  have len: "length (scale_translate s t P) = length P"
    by (simp add: scale_translate_def)
  consider "length P = 0" | "length P = 1" | "2 \<le> length P"
    by linarith
  then show ?thesis
  proof cases
    case 1
    then show ?thesis by (simp add: scale_translate_def)
  next
    case 2
    then show ?thesis using len by (simp add: normalizePoints_def)
  next
    case 3
    then have ne: "P \<noteq> []" by auto
    have r: "rms (scale_translate s t P) = s * rms P"
      using ne assms by (rule rms_scale_translate)
    have c: "centered (scale_translate s t P) = map (\<lambda>p. (s * fst p, s * snd p)) (centered P)"
      using ne by (rule centered_scale_translate)
    show ?thesis
    proof (cases "rms P = 0")
      case True
      then have "\<forall>p \<in> set (centered P). p = (0, 0)"
        using ne rms_zero_centered by blast
      then have "map (\<lambda>p. (s * fst p, s * snd p)) (centered P) = centered P"
        by (intro map_idI) auto
      then show ?thesis
        using 3 len True r c by (simp add: normalizePoints_fin)
    next
      case False
      then show ?thesis
        using 3 len r c assms by (simp add: normalizePoints_fin comp_def)
    qed
  qed
qed

lemma centroid_replicate: "centroid (replicate (Suc n) q) = q"
  by (simp add: centroid_def sum_list_replicate map_replicate del: replicate_Suc of_nat_Suc)

lemma centered_replicate: "centered (replicate (Suc n) q) = replicate (Suc n) (0, 0)"
  unfolding centered_def centroid_replicate by (simp del: replicate_Suc)

lemma rms_replicate: "rms (replicate (Suc n) q) = 0"
  unfolding rms_def centered_replicate by (simp add: sum_list_replicate del: replicate_Suc)

text \<open>
  \<open>normalizePoints\<close> returns the empty list for the empty list and the single point
  \<open>(0, 0)\<close> for a one-point input, and the output always has the length of the input.
  Over the reals, two or more coinciding finite points have RMS radius 0 and the result
  is the centred points, all \<open>(0, 0)\<close>, unscaled.
\<close>

lemma normalize_degenerate_exact:
  "normalizePoints [] = [] \<and>
   normalizePoints [p] = [\<lparr>px = Fin 0, py = Fin 0\<rparr>] \<and>
   normalizePoints (replicate (Suc (Suc n)) (fin_pt q))
     = replicate (Suc (Suc n)) \<lparr>px = Fin 0, py = Fin 0\<rparr> \<and>
   length (normalizePoints ps) = length ps"
proof -
  have a: "normalizePoints [] = []" and b: "normalizePoints [p] = [\<lparr>px = Fin 0, py = Fin 0\<rparr>]"
    by (simp_all add: normalizePoints_def)
  have "normalizePoints (map fin_pt (replicate (Suc (Suc n)) q))
        = map fin_pt (centered (replicate (Suc (Suc n)) q))"
    by (subst normalizePoints_fin) (simp_all add: rms_replicate del: replicate_Suc)
  then have c: "normalizePoints (replicate (Suc (Suc n)) (fin_pt q))
     = replicate (Suc (Suc n)) \<lparr>px = Fin 0, py = Fin 0\<rparr>"
    unfolding centered_replicate by (simp add: fin_pt_def del: replicate_Suc)
  have d: "length (normalizePoints ps) = length ps"
    by (simp add: normalizePoints_def Let_def)
  from a b c d show ?thesis by blast
qed

section \<open>Normalization in binary64 arithmetic\<close>

subsection \<open>Evaluating the rounding\<close>

lemma round_even_of_int: "round_even (of_int n) = n"
  by (simp add: round_even_def)

lemma round_even_ge: "of_int a \<le> v \<Longrightarrow> a \<le> round_even v"
  unfolding round_even_def Let_def by (auto simp: le_floor_iff) linarith+

lemma round_even_le: "v \<le> of_int b \<Longrightarrow> round_even v \<le> b"
proof -
  assume h: "v \<le> of_int b"
  have f: "\<lfloor>v\<rfloor> \<le> b" using h by (simp add: floor_le_iff) 
  show ?thesis
  proof (cases "\<lfloor>v\<rfloor> = b")
    case True
    then have "v = of_int b" using h by (metis of_int_floor_le order_antisym)
    then show ?thesis by (simp add: round_even_of_int)
  next
    case False
    then have "\<lfloor>v\<rfloor> + 1 \<le> b" using f by simp
    then show ?thesis unfolding round_even_def Let_def using f by auto
  qed
qed


lemma floor_log2_eq:
  assumes "2 powi e \<le> \<bar>v\<bar>" and "\<bar>v\<bar> < 2 powi (e + 1)"
  shows "\<lfloor>log 2 \<bar>v\<bar>\<rfloor> = e"
proof -
  have p: "0 < \<bar>v\<bar>"
    using assms(1) zero_less_power_int [of "2::real" e] by linarith
  have "(2::real) powr real_of_int e = 2 powi e" "(2::real) powr real_of_int (e + 1) = 2 powi (e + 1)"
    using powr_real_of_int' [of "2::real" e] powr_real_of_int' [of "2::real" "e + 1"] by auto
  then show ?thesis
    using assms floor_log_eq_powr_iff [of "\<bar>v\<bar>" 2 e] p by auto
qed

lemma binary64_at:
  assumes "2 powi e \<le> \<bar>v\<bar>" and "\<bar>v\<bar> < 2 powi (e + 1)" and "- 1022 \<le> e"
  shows "binary64 v =
         (let ulp = 2 powi (e - 52);
              y = of_int (round_even (v / ulp)) * ulp
          in if 2 powi 1024 \<le> \<bar>y\<bar> then (if 0 < v then PInf else NInf) else Fin y)"
proof -
  have "0 < \<bar>v\<bar>"
    using assms(1) zero_less_power_int [of "2::real" e] by linarith
  then have "v \<noteq> 0" by auto
  moreover have "max \<lfloor>log 2 \<bar>v\<bar>\<rfloor> (- 1022) = e"
    using floor_log2_eq [OF assms(1,2)] assms(3) by simp
  ultimately show ?thesis by (simp add: binary64_def)
qed

lemma pow2_int: "0 \<le> k \<Longrightarrow> (2::real) powi k = of_int (2 ^ nat k)"
  by (simp add: power_int_def)

lemma pow2_split: "(2::real) powi k = 2 powi j * 2 powi (k - j)"
  using power_int_add [of "2::real" j "k - j"] by simp

lemma floor_log2_bounds:
  assumes "0 < \<bar>v\<bar>"
  shows "2 powi \<lfloor>log 2 \<bar>v\<bar>\<rfloor> \<le> \<bar>v\<bar> \<and> \<bar>v\<bar> < 2 powi (\<lfloor>log 2 \<bar>v\<bar>\<rfloor> + 1)"
proof -
  define e where "e = \<lfloor>log 2 \<bar>v\<bar>\<rfloor>"
  have "(2::real) powr real_of_int e = 2 powi e" "(2::real) powr real_of_int (e + 1) = 2 powi (e + 1)"
    using powr_real_of_int' [of "2::real" e] powr_real_of_int' [of "2::real" "e + 1"] by auto
  then show ?thesis
    using floor_log_eq_powr_iff [of "\<bar>v\<bar>" 2 e] assms e_def by auto
qed

lemma round_scaled_pos:
  assumes "0 < ulp" and "of_int K * ulp \<le> v" and "v \<le> of_int L * ulp"
  shows "of_int K * ulp \<le> of_int (round_even (v / ulp)) * ulp \<and>
         of_int (round_even (v / ulp)) * ulp \<le> of_int L * ulp"
proof -
  have "of_int K \<le> v / ulp" "v / ulp \<le> of_int L"
    using assms by (simp_all add: pos_le_divide_eq pos_divide_le_eq)
  then have "K \<le> round_even (v / ulp)" "round_even (v / ulp) \<le> L"
    by (auto intro: round_even_ge round_even_le)
  then show ?thesis using assms(1) by (simp add: mult_right_mono)
qed

lemma binary64_bounds:
  assumes lo: "2 powi a \<le> \<bar>v\<bar>" and hi: "\<bar>v\<bar> \<le> 2 powi b"
    and a: "- 1022 \<le> a" and b: "b \<le> 1023"
  shows "\<exists>y. binary64 v = Fin y \<and> 2 powi a \<le> \<bar>y\<bar> \<and> \<bar>y\<bar> \<le> 2 powi b \<and> (0 < v \<longleftrightarrow> 0 < y)"
proof -
  define e where "e = \<lfloor>log 2 \<bar>v\<bar>\<rfloor>"
  have pos: "0 < \<bar>v\<bar>"
    using lo zero_less_power_int [of "2::real" a] by linarith
  have el: "2 powi e \<le> \<bar>v\<bar>" and eh: "\<bar>v\<bar> < 2 powi (e + 1)"
    using floor_log2_bounds [OF pos] e_def by auto
  have ae: "a \<le> e"
  proof (rule ccontr)
    assume "\<not> a \<le> e"
    then have "(2::real) powi (e + 1) \<le> 2 powi a"
      by (intro power_int_increasing) auto
    then show False using lo eh by linarith
  qed
  have eb: "e \<le> b"
  proof (rule ccontr)
    assume "\<not> e \<le> b"
    then have "(2::real) powi (b + 1) \<le> 2 powi e"
      by (intro power_int_increasing) auto
    moreover have "(2::real) powi b < 2 powi (b + 1)"
      by (intro power_int_strict_increasing) auto
    ultimately show False using el hi by linarith
  qed
  define ulp where "ulp = (2::real) powi (e - 52)"
  define K where "K = (2::int) ^ 52"
  define L where "L = (2::int) ^ nat (b - e + 52)"
  define y where "y = of_int (round_even (v / ulp)) * ulp"
  have up: "0 < ulp" unfolding ulp_def by (rule zero_less_power_int) simp
  have ulp_e: "of_int K * ulp = 2 powi e"
    unfolding K_def ulp_def using pow2_split [of e 52] pow2_int [of 52] by simp
  have ulp_b: "of_int L * ulp = 2 powi b"
    unfolding L_def ulp_def
    using pow2_split [of b "b - e + 52"] pow2_int [of "b - e + 52"] eb by simp
  have pa: "(2::real) powi a \<le> 2 powi e"
    using ae by (intro power_int_increasing) auto
  have pe: "0 < (2::real) powi e" by (rule zero_less_power_int) simp
  have bounds: "2 powi a \<le> \<bar>y\<bar> \<and> \<bar>y\<bar> \<le> 2 powi b \<and> (0 < v \<longleftrightarrow> 0 < y)"
  proof (cases "0 < v")
    case True
    then have "of_int K * ulp \<le> v" "v \<le> of_int L * ulp"
      using el hi ulp_e ulp_b by simp_all
    then have yb: "2 powi e \<le> y" "y \<le> 2 powi b"
      using round_scaled_pos [OF up, of K v L] ulp_e ulp_b unfolding y_def by simp_all
    then have "0 < y" using pe by linarith
    moreover from this have "\<bar>y\<bar> = y" by simp
    ultimately show ?thesis using True pa yb by simp
  next
    case False
    then have neg: "v < 0" using pos by auto
    then have "of_int (- L) * ulp \<le> v" "v \<le> of_int (- K) * ulp"
      using el hi ulp_e ulp_b by simp_all
    then have "of_int (- L) * ulp \<le> y" "y \<le> of_int (- K) * ulp"
      using round_scaled_pos [OF up, of "- L" v "- K"] unfolding y_def by simp_all
    then have yb: "- (2 powi b) \<le> y" "y \<le> - (2 powi e)"
      using ulp_e ulp_b by simp_all
    then have "y < 0" using pe by linarith
    moreover from this have "\<bar>y\<bar> = - y" by simp
    ultimately show ?thesis using neg pa yb by simp
  qed
  have "(2::real) powi b \<le> 2 powi 1023"
    using b by (intro power_int_increasing) auto
  moreover have "(2::real) powi 1023 < 2 powi 1024"
    by (intro power_int_strict_increasing) auto
  ultimately have nov: "\<not> 2 powi 1024 \<le> \<bar>y\<bar>" using bounds by linarith
  have "- 1022 \<le> e" using a ae by simp
  then have "binary64 v = Fin y"
    using binary64_at [OF el eh] nov unfolding y_def ulp_def by (simp add: Let_def)
  with bounds show ?thesis by blast
qed

lemma binary64_overflow:
  assumes "2 powi 1024 \<le> v"
  shows "binary64 v = PInf"
proof -
  define e where "e = \<lfloor>log 2 \<bar>v\<bar>\<rfloor>"
  have p1024: "0 < (2::real) powi 1024" by (rule zero_less_power_int) simp
  then have vp: "0 < v" using assms by linarith
  then have pos: "0 < \<bar>v\<bar>" by simp
  have el: "2 powi e \<le> \<bar>v\<bar>" and eh: "\<bar>v\<bar> < 2 powi (e + 1)"
    using floor_log2_bounds [OF pos] e_def by auto
  have ge: "1024 \<le> e"
  proof (rule ccontr)
    assume "\<not> 1024 \<le> e"
    then have "(2::real) powi (e + 1) \<le> 2 powi 1024"
      by (intro power_int_increasing) auto
    then show False using assms eh vp by linarith
  qed
  define ulp where "ulp = (2::real) powi (e - 52)"
  define K where "K = (2::int) ^ 52"
  define y where "y = of_int (round_even (v / ulp)) * ulp"
  have up: "0 < ulp" unfolding ulp_def by (rule zero_less_power_int) simp
  have ulp_e: "of_int K * ulp = 2 powi e"
    unfolding K_def ulp_def using pow2_split [of e 52] pow2_int [of 52] by simp
  have "of_int K \<le> v / ulp"
    using el vp up ulp_e by (simp add: pos_le_divide_eq)
  then have "K \<le> round_even (v / ulp)" by (rule round_even_ge)
  then have "of_int K * ulp \<le> y"
    unfolding y_def using up by (simp add: mult_right_mono)
  moreover have "(2::real) powi 1024 \<le> 2 powi e"
    using ge by (intro power_int_increasing) auto
  ultimately have "2 powi 1024 \<le> \<bar>y\<bar>" using ulp_e by linarith
  moreover have "- 1022 \<le> e" using ge by simp
  ultimately show ?thesis
    using binary64_at [OF el eh] vp unfolding y_def ulp_def by (simp add: Let_def)
qed

subsection \<open>The rounded functions\<close>

lemma rnd_Fin: "rnd Fin v = v"
  by (cases v) simp_all

lemma mean_r_exact: "mean_r Fin = mean"
  by (rule ext) (simp add: mean_r_def mean_def rnd_Fin)

lemma normalizePoints_r_exact: "normalizePoints_r Fin = normalizePoints"
  by (rule ext) (simp add: normalizePoints_r_def normalizePoints_def rnd_Fin mean_r_exact Let_def)

lemma mean_r_three:
  assumes "r (0 + a) = Fin a1" and "r (a1 + a) = Fin a2" and "r (a2 + a) = Fin a3"
    and "r (a3 / 3) = c"
  shows "mean_r r [Fin a, Fin a, Fin a] = c"
  using assms by (simp add: mean_r_def)

lemma normalizePoints_r_three:
  assumes x: "mean_r r [Fin a, Fin a, Fin a] = Fin cx" "r (a - cx) = Fin dx"
    and y: "mean_r r [Fin b, Fin b, Fin b] = Fin cy" "r (b - cy) = Fin dy"
    and q: "r (dx * dx) = Fin qx" "r (dy * dy) = Fin qy" "r (qx + qy) = Fin q"
    and m: "mean_r r [Fin q, Fin q, Fin q] = Fin mq" "0 \<le> mq"
    and s: "r (sqrt mq) = Fin rt"
  shows "normalizePoints_r r (replicate 3 \<lparr>px = Fin a, py = Fin b\<rparr>) =
         (if rt = 0 then replicate 3 \<lparr>px = Fin dx, py = Fin dy\<rparr>
          else replicate 3 \<lparr>px = rnd r (num_div (Fin dx) (Fin rt)),
                              py = rnd r (num_div (Fin dy) (Fin rt))\<rparr>)"
  using assms
  by (simp add: normalizePoints_r_def numeral_3_eq_3 num_sub_def num_eq_def not_less Let_def)

subsection \<open>Three coinciding points\<close>

text \<open>
  The points are three copies of \<^verbatim>\<open>{x: 0.1, y: 0.2}\<close>. The sum \<^verbatim>\<open>0.1 + 0.1 + 0.1\<close> rounds
  upwards, the centroid is one unit in the last place above \<^verbatim>\<open>0.1\<close>, the centred points
  are \<open>-1 / 2 powi 56\<close> and \<open>-1 / 2 powi 55\<close> instead of zero, the RMS radius is not zero,
  and the division by it yields points of length one.
\<close>

lemma replicate3: "replicate 3 v = [v, v, v]"
  by (simp add: numeral_3_eq_3)

lemma b64_tenth: "binary64 (1 / 10) = Fin (3602879701896397 / 36028797018963968)"
  by (subst binary64_at [of "- 4"]) (simp_all add: round_even_def)

lemma b64_fifth: "binary64 (2 / 10) = Fin (3602879701896397 / 18014398509481984)"
  by (subst binary64_at [of "- 3"]) (simp_all add: round_even_def)

lemma mean_tenth:
  "mean_r binary64 [Fin (3602879701896397 / 36028797018963968),
                    Fin (3602879701896397 / 36028797018963968),
                    Fin (3602879701896397 / 36028797018963968)]
   = Fin (7205759403792795 / 72057594037927936)"
proof (rule mean_r_three)
  show "binary64 (0 + 3602879701896397 / 36028797018963968)
        = Fin (3602879701896397 / 36028797018963968)"
    by (subst binary64_at [of "- 4"]) (simp_all add: round_even_def)
  show "binary64 (3602879701896397 / 36028797018963968 + 3602879701896397 / 36028797018963968)
        = Fin (3602879701896397 / 18014398509481984)"
    by (subst binary64_at [of "- 3"]) (simp_all add: round_even_def)
  show "binary64 (3602879701896397 / 18014398509481984 + 3602879701896397 / 36028797018963968)
        = Fin (1351079888211149 / 4503599627370496)"
    by (subst binary64_at [of "- 2"]) (simp_all add: round_even_def)
  show "binary64 (1351079888211149 / 4503599627370496 / 3)
        = Fin (7205759403792795 / 72057594037927936)"
    by (subst binary64_at [of "- 4"]) (simp_all add: round_even_def)
qed

lemma mean_fifth:
  "mean_r binary64 [Fin (3602879701896397 / 18014398509481984),
                    Fin (3602879701896397 / 18014398509481984),
                    Fin (3602879701896397 / 18014398509481984)]
   = Fin (7205759403792795 / 36028797018963968)"
proof (rule mean_r_three)
  show "binary64 (0 + 3602879701896397 / 18014398509481984)
        = Fin (3602879701896397 / 18014398509481984)"
    by (subst binary64_at [of "- 3"]) (simp_all add: round_even_def)
  show "binary64 (3602879701896397 / 18014398509481984 + 3602879701896397 / 18014398509481984)
        = Fin (3602879701896397 / 9007199254740992)"
    by (subst binary64_at [of "- 2"]) (simp_all add: round_even_def)
  show "binary64 (3602879701896397 / 9007199254740992 + 3602879701896397 / 18014398509481984)
        = Fin (1351079888211149 / 2251799813685248)"
    by (subst binary64_at [of "- 1"]) (simp_all add: round_even_def)
  show "binary64 (1351079888211149 / 2251799813685248 / 3)
        = Fin (7205759403792795 / 36028797018963968)"
    by (subst binary64_at [of "- 3"]) (simp_all add: round_even_def)
qed

lemma mean_squares:
  "mean_r binary64 [Fin (5 / 2 ^ 112), Fin (5 / 2 ^ 112), Fin (5 / 2 ^ 112)] = Fin (5 / 2 ^ 112)"
proof (rule mean_r_three)
  show "binary64 (0 + 5 / 2 ^ 112) = Fin (5 / 2 ^ 112)"
    by (subst binary64_at [of "- 110"]) (simp_all add: round_even_def)
  show "binary64 (5 / 2 ^ 112 + 5 / 2 ^ 112) = Fin (5 / 2 ^ 111)"
    by (subst binary64_at [of "- 109"]) (simp_all add: round_even_def)
  show "binary64 (5 / 2 ^ 111 + 5 / 2 ^ 112) = Fin (15 / 2 ^ 112)"
    by (subst binary64_at [of "- 109"]) (simp_all add: round_even_def)
  show "binary64 (15 / 2 ^ 112 / 3) = Fin (5 / 2 ^ 112)"
    by (subst binary64_at [of "- 110"]) (simp_all add: round_even_def)
qed

lemma rms_bounds:
  "\<exists>rt. binary64 (sqrt (5 / 2 ^ 112)) = Fin rt \<and> 1 / 2 ^ 55 \<le> rt \<and> rt \<le> 1 / 2 ^ 54"
proof -
  have lo: "(1 / 2 ^ 55 :: real) \<le> sqrt (5 / 2 ^ 112)"
    by (rule real_le_rsqrt) (simp add: power2_eq_square)
  have hi: "sqrt (5 / 2 ^ 112) \<le> (1 / 2 ^ 54 :: real)"
    by (rule real_le_lsqrt) (simp_all add: power2_eq_square)
  have "0 < sqrt (5 / 2 ^ 112 :: real)" by simp
  then have ab: "\<bar>sqrt (5 / 2 ^ 112 :: real)\<bar> = sqrt (5 / 2 ^ 112)" by simp
  obtain y where y: "binary64 (sqrt (5 / 2 ^ 112)) = Fin y" "2 powi (- 55) \<le> \<bar>y\<bar>"
      "\<bar>y\<bar> \<le> 2 powi (- 54)" "0 < sqrt (5 / 2 ^ 112 :: real) \<longleftrightarrow> 0 < y"
    using binary64_bounds [of "- 55" "sqrt (5 / 2 ^ 112)" "- 54"] lo hi unfolding ab
    by (auto simp: power_int_minus_divide)
  then have "0 < y" by simp
  then show ?thesis using y by (auto simp: power_int_minus_divide)
qed

lemma b64_neg_quotient:
  assumes rt: "1 / 2 ^ 55 \<le> rt" "rt \<le> 1 / 2 ^ 54"
  shows "\<exists>v w. binary64 (- (1 / 2 ^ 56) / rt) = Fin v \<and> v \<le> - (1 / 4) \<and>
               binary64 (- (1 / 2 ^ 55) / rt) = Fin w \<and> w \<le> - (1 / 2)"
proof -
  have p: "0 < rt" using rt(1) by (simp add: less_le_trans [of 0 "1 / 2 ^ 55"])
  have x: "1 / 4 \<le> (1 / 2 ^ 56) / rt" "(1 / 2 ^ 56) / rt \<le> 1 / 2"
    using p rt by (simp_all add: pos_le_divide_eq pos_divide_le_eq)
  have y: "1 / 2 \<le> (1 / 2 ^ 55) / rt" "(1 / 2 ^ 55) / rt \<le> 1"
    using p rt by (simp_all add: pos_le_divide_eq pos_divide_le_eq)
  have ax: "\<bar>- (1 / 2 ^ 56) / rt\<bar> = (1 / 2 ^ 56) / rt"
    and ay: "\<bar>- (1 / 2 ^ 55) / rt\<bar> = (1 / 2 ^ 55) / rt"
    using p by simp_all
  obtain v where v: "binary64 (- (1 / 2 ^ 56) / rt) = Fin v" "2 powi (- 2) \<le> \<bar>v\<bar>"
      "0 < - (1 / 2 ^ 56) / rt \<longleftrightarrow> 0 < v"
    using binary64_bounds [of "- 2" "- (1 / 2 ^ 56) / rt" "- 1"] x unfolding ax
    by (auto simp: power_int_minus_divide)
  obtain w where w: "binary64 (- (1 / 2 ^ 55) / rt) = Fin w" "2 powi (- 1) \<le> \<bar>w\<bar>"
      "0 < - (1 / 2 ^ 55) / rt \<longleftrightarrow> 0 < w"
    using binary64_bounds [of "- 1" "- (1 / 2 ^ 55) / rt" 0] y unfolding ay
    by (auto simp: power_int_minus_divide)
  have "\<not> 0 < - (1 / 2 ^ 56) / rt" "\<not> 0 < - (1 / 2 ^ 55) / rt"
    using p by (simp_all add: divide_less_0_iff not_less divide_nonpos_pos)
  then have "v \<le> 0" "w \<le> 0" using v(3) w(3) by simp_all
  then have "v \<le> - (1 / 4)" "w \<le> - (1 / 2)"
    using v(2) w(2) by (simp_all add: power_int_minus_divide)
  with v(1) w(1) show ?thesis by blast
qed

lemma normalize_tenths:
  "\<exists>v w. normalizePoints_r binary64
            (replicate 3 \<lparr>px = Fin (3602879701896397 / 36028797018963968),
                           py = Fin (3602879701896397 / 18014398509481984)\<rparr>)
          = replicate 3 \<lparr>px = Fin v, py = Fin w\<rparr> \<and> v \<le> - (1 / 4) \<and> w \<le> - (1 / 2)"
proof -
  obtain rt where rt: "binary64 (sqrt (5 / 2 ^ 112)) = Fin rt" "1 / 2 ^ 55 \<le> rt" "rt \<le> 1 / 2 ^ 54"
    using rms_bounds by blast
  have p: "0 < rt" using rt(2) by (simp add: less_le_trans [of 0 "1 / 2 ^ 55"])
  obtain v w where vw: "binary64 (- (1 / 2 ^ 56) / rt) = Fin v" "v \<le> - (1 / 4)"
      "binary64 (- (1 / 2 ^ 55) / rt) = Fin w" "w \<le> - (1 / 2)"
    using b64_neg_quotient [OF rt(2,3)] by blast
  have dx: "binary64 (3602879701896397 / 36028797018963968 - 7205759403792795 / 72057594037927936)
            = Fin (- (1 / 2 ^ 56))"
    by (subst binary64_at [of "- 56"]) (simp_all add: round_even_def)
  have dy: "binary64 (3602879701896397 / 18014398509481984 - 7205759403792795 / 36028797018963968)
            = Fin (- (1 / 2 ^ 55))"
    by (subst binary64_at [of "- 55"]) (simp_all add: round_even_def)
  have qx: "binary64 (- (1 / 2 ^ 56) * - (1 / 2 ^ 56)) = Fin (1 / 2 ^ 112)"
    by (subst binary64_at [of "- 112"]) (simp_all add: round_even_def)
  have qy: "binary64 (- (1 / 2 ^ 55) * - (1 / 2 ^ 55)) = Fin (1 / 2 ^ 110)"
    by (subst binary64_at [of "- 110"]) (simp_all add: round_even_def)
  have q: "binary64 (1 / 2 ^ 112 + 1 / 2 ^ 110) = Fin (5 / 2 ^ 112)"
    by (subst binary64_at [of "- 110"]) (simp_all add: round_even_def)
  have "normalizePoints_r binary64
            (replicate 3 \<lparr>px = Fin (3602879701896397 / 36028797018963968),
                           py = Fin (3602879701896397 / 18014398509481984)\<rparr>)
        = (if rt = 0 then replicate 3 \<lparr>px = Fin (- (1 / 2 ^ 56)), py = Fin (- (1 / 2 ^ 55))\<rparr>
           else replicate 3 \<lparr>px = rnd binary64 (num_div (Fin (- (1 / 2 ^ 56))) (Fin rt)),
                               py = rnd binary64 (num_div (Fin (- (1 / 2 ^ 55))) (Fin rt))\<rparr>)"
    by (rule normalizePoints_r_three [OF mean_tenth dx mean_fifth dy qx qy q mean_squares _ rt(1)])
       simp
  then have "normalizePoints_r binary64
            (replicate 3 \<lparr>px = Fin (3602879701896397 / 36028797018963968),
                           py = Fin (3602879701896397 / 18014398509481984)\<rparr>)
        = replicate 3 \<lparr>px = Fin v, py = Fin w\<rparr>"
    using p vw(1,3) by simp
  with vw(2,4) show ?thesis by blast
qed

lemma b64_zero: "binary64 0 = Fin 0"
  by (simp add: binary64_def)

lemma mean_half: "mean_r binary64 [Fin (1 / 2), Fin (1 / 2), Fin (1 / 2)] = Fin (1 / 2)"
proof (rule mean_r_three)
  show "binary64 (0 + 1 / 2) = Fin (1 / 2)"
    by (subst binary64_at [of "- 1"]) (simp_all add: round_even_def)
  show "binary64 (1 / 2 + 1 / 2) = Fin 1"
    by (subst binary64_at [of 0]) (simp_all add: round_even_def)
  show "binary64 (1 + 1 / 2) = Fin (3 / 2)"
    by (subst binary64_at [of 0]) (simp_all add: round_even_def)
  show "binary64 (3 / 2 / 3) = Fin (1 / 2)"
    by (subst binary64_at [of "- 1"]) (simp_all add: round_even_def)
qed

lemma mean_zero: "mean_r binary64 [Fin 0, Fin 0, Fin 0] = Fin 0"
  by (rule mean_r_three [of _ _ 0 0 0]) (simp_all add: b64_zero)

lemma normalize_halves:
  "normalizePoints_r binary64 (replicate 3 \<lparr>px = Fin (1 / 2), py = Fin (1 / 2)\<rparr>)
   = replicate 3 \<lparr>px = Fin 0, py = Fin 0\<rparr>"
proof -
  have d: "binary64 (1 / 2 - 1 / 2) = Fin 0" by (simp add: b64_zero)
  have q: "binary64 (0 * 0) = Fin 0" "binary64 (0 + 0) = Fin 0" "binary64 (sqrt 0) = Fin 0"
    by (simp_all add: b64_zero)
  show ?thesis
    using normalizePoints_r_three [OF mean_half d mean_half d q(1) q(1) q(2) mean_zero _ q(3)]
    by simp
qed

lemma translate_tenths:
  "scale_translate_r binary64 (Fin 1)
     \<lparr>px = Fin (3602879701896397 / 9007199254740992),
      py = Fin (5404319552844595 / 18014398509481984)\<rparr>
     (replicate 3 \<lparr>px = Fin (3602879701896397 / 36028797018963968),
                    py = Fin (3602879701896397 / 18014398509481984)\<rparr>)
   = replicate 3 \<lparr>px = Fin (1 / 2), py = Fin (1 / 2)\<rparr>"
proof -
  have "binary64 (3602879701896397 / 36028797018963968)
        = Fin (3602879701896397 / 36028797018963968)"
    by (subst binary64_at [of "- 4"]) (simp_all add: round_even_def)
  moreover have "binary64 (3602879701896397 / 18014398509481984)
        = Fin (3602879701896397 / 18014398509481984)"
    by (subst binary64_at [of "- 3"]) (simp_all add: round_even_def)
  moreover have "binary64 (3602879701896397 / 36028797018963968 + 3602879701896397 / 9007199254740992)
        = Fin (1 / 2)"
    by (subst binary64_at [of "- 1"]) (simp_all add: round_even_def)
  moreover have "binary64 (3602879701896397 / 18014398509481984 + 5404319552844595 / 18014398509481984)
        = Fin (1 / 2)"
    by (subst binary64_at [of "- 1"]) (simp_all add: round_even_def)
  ultimately show ?thesis
    by (simp add: scale_translate_r_def)
qed

lemma b64_four_tenths: "binary64 (4 / 10) = Fin (3602879701896397 / 9007199254740992)"
  by (subst binary64_at [of "- 2"]) (simp_all add: round_even_def)

lemma b64_three_tenths: "binary64 (3 / 10) = Fin (5404319552844595 / 18014398509481984)"
  by (subst binary64_at [of "- 2"]) (simp_all add: round_even_def)
text \<open>
  Claim C8, at the input \<^verbatim>\<open>[{x: 0.1, y: 0.2}, {x: 0.1, y: 0.2}, {x: 0.1, y: 0.2}]\<close>:
  in binary64 arithmetic \<open>normalizePoints\<close> does not return the zero points for these three
  coinciding points, but three copies of a point with \<open>x \<le> -1/4\<close> and \<open>y \<le> -1/2\<close>
  (about \<open>(-0.447, -0.894)\<close>): the test \<^verbatim>\<open>rms === 0\<close> fails on the rounded centroid. Over
  the reals the result is the zero points (\<open>normalize_degenerate_exact\<close>).
\<close>

theorem normalize_coincident_binary64:
  "(\<exists>v w. normalizePoints_r binary64
             (replicate 3 \<lparr>px = binary64 (1 / 10), py = binary64 (2 / 10)\<rparr>)
           = replicate 3 \<lparr>px = Fin v, py = Fin w\<rparr> \<and> v \<le> - (1 / 4) \<and> w \<le> - (1 / 2)) \<and>
   normalizePoints_r binary64 (replicate 3 \<lparr>px = binary64 (1 / 10), py = binary64 (2 / 10)\<rparr>)
     \<noteq> replicate 3 \<lparr>px = Fin 0, py = Fin 0\<rparr>"
proof -
  obtain v w where vw: "normalizePoints_r binary64
            (replicate 3 \<lparr>px = Fin (3602879701896397 / 36028797018963968),
                           py = Fin (3602879701896397 / 18014398509481984)\<rparr>)
          = replicate 3 \<lparr>px = Fin v, py = Fin w\<rparr>" "v \<le> - (1 / 4)" "w \<le> - (1 / 2)"
    using normalize_tenths by blast
  have "replicate 3 \<lparr>px = Fin v, py = Fin w\<rparr> \<noteq> replicate 3 \<lparr>px = Fin 0, py = Fin 0\<rparr>"
    using vw(2) by (simp add: replicate3)
  then show ?thesis
    unfolding b64_tenth b64_fifth using vw by auto
qed
text \<open>
  Claim C2, at the same points \<open>P\<close> with scale \<open>s = 1\<close> and translation
  \<^verbatim>\<open>t = {x: 0.4, y: 0.3}\<close>: in binary64 arithmetic \<open>s\<cdot>P + t\<close> is three copies of
  \<open>(1/2, 1/2)\<close>, whose normalization is the zero points, while the normalization of \<open>P\<close>
  is not: the two differ by a vector of length one. Over the reals they are equal
  (\<open>normalize_invariant_exact\<close>).
\<close>

theorem normalize_invariant_binary64:
  "scale_translate_r binary64 (Fin 1) \<lparr>px = binary64 (4 / 10), py = binary64 (3 / 10)\<rparr>
     (replicate 3 \<lparr>px = binary64 (1 / 10), py = binary64 (2 / 10)\<rparr>)
     = replicate 3 \<lparr>px = Fin (1 / 2), py = Fin (1 / 2)\<rparr> \<and>
   normalizePoints_r binary64 (replicate 3 \<lparr>px = Fin (1 / 2), py = Fin (1 / 2)\<rparr>)
     = replicate 3 \<lparr>px = Fin 0, py = Fin 0\<rparr> \<and>
   normalizePoints_r binary64 (replicate 3 \<lparr>px = binary64 (1 / 10), py = binary64 (2 / 10)\<rparr>)
     \<noteq> normalizePoints_r binary64
         (scale_translate_r binary64 (Fin 1) \<lparr>px = binary64 (4 / 10), py = binary64 (3 / 10)\<rparr>
            (replicate 3 \<lparr>px = binary64 (1 / 10), py = binary64 (2 / 10)\<rparr>))"
proof -
  obtain v w where vw: "normalizePoints_r binary64
            (replicate 3 \<lparr>px = Fin (3602879701896397 / 36028797018963968),
                           py = Fin (3602879701896397 / 18014398509481984)\<rparr>)
          = replicate 3 \<lparr>px = Fin v, py = Fin w\<rparr>" "v \<le> - (1 / 4)"
    using normalize_tenths by blast
  have "replicate 3 \<lparr>px = Fin v, py = Fin w\<rparr> \<noteq> replicate 3 \<lparr>px = Fin 0, py = Fin 0\<rparr>"
    using vw(2) by (simp add: replicate3)
  then show ?thesis
    unfolding b64_tenth b64_fifth b64_four_tenths b64_three_tenths translate_tenths
      normalize_halves vw(1)
    by simp
qed
subsection \<open>Overflow\<close>

text \<open>Two copies of the finite point \<open>(2 powi 1023, 0)\<close>: the sum of the two abscissae
  overflows, the centroid is infinite, and the division \<open>-\<infinity> / \<infinity>\<close> yields NaN.\<close>

lemma normalizePoints_r_overflow:
  assumes "r (0 + g) = Fin g" and "r (g + g) = PInf" and "r 0 = Fin 0"
  shows "normalizePoints_r r [\<lparr>px = Fin g, py = Fin 0\<rparr>, \<lparr>px = Fin g, py = Fin 0\<rparr>]
         = [\<lparr>px = NaN, py = Fin 0\<rparr>, \<lparr>px = NaN, py = Fin 0\<rparr>]"
  using assms by (simp add: normalizePoints_r_def mean_r_def num_sub_def num_eq_def Let_def)

lemma b64_huge: "binary64 (2 powi 1023) = Fin (2 powi 1023)"
proof -
  have p: "0 < (2::real) powi 1023" by (rule zero_less_power_int) simp
  then have "\<bar>(2::real) powi 1023\<bar> = 2 powi 1023" by simp
  then obtain y where "binary64 (2 powi 1023) = Fin y" "2 powi 1023 \<le> \<bar>y\<bar>"
      "\<bar>y\<bar> \<le> 2 powi 1023" "0 < (2::real) powi 1023 \<longleftrightarrow> 0 < y"
    using binary64_bounds [of 1023 "2 powi 1023" 1023] by auto
  moreover from this p have "y = 2 powi 1023" by simp
  ultimately show ?thesis by simp
qed

lemma b64_huge_sum: "binary64 (2 powi 1023 + 2 powi 1023) = PInf"
proof -
  have "(2::real) powi 1024 = 2 powi 1023 + 2 powi 1023"
    using power_int_add_1 [of "2::real" 1023] by simp
  then show ?thesis using binary64_overflow [of "2 powi 1023 + 2 powi 1023"] by simp
qed

lemma normalize_huge:
  "normalizePoints_r binary64
     [\<lparr>px = Fin (2 powi 1023), py = Fin 0\<rparr>, \<lparr>px = Fin (2 powi 1023), py = Fin 0\<rparr>]
   = [\<lparr>px = NaN, py = Fin 0\<rparr>, \<lparr>px = NaN, py = Fin 0\<rparr>]"
proof -
  define g where "g = (2::real) powi 1023"
  have "binary64 (0 + g) = Fin g" "binary64 (g + g) = PInf"
    unfolding g_def using b64_huge b64_huge_sum by simp_all
  then show ?thesis
    unfolding g_def [symmetric] by (rule normalizePoints_r_overflow) (rule b64_zero)
qed

subsection \<open>Underflow\<close>

lemma round_even_small: "\<bar>x\<bar> < 1 / 2 \<Longrightarrow> round_even x = 0"
proof (cases "0 \<le> x")
  case True
  assume "\<bar>x\<bar> < 1 / 2"
  then have "\<lfloor>x\<rfloor> = 0" using True by (intro floor_unique) auto
  then show ?thesis using \<open>\<bar>x\<bar> < 1 / 2\<close> True by (simp add: round_even_def)
next
  case False
  assume "\<bar>x\<bar> < 1 / 2"
  then have "\<lfloor>x\<rfloor> = - 1" using False by (intro floor_unique) auto
  then show ?thesis using \<open>\<bar>x\<bar> < 1 / 2\<close> False by (simp add: round_even_def)
qed

lemma binary64_zero_significand:
  assumes "v \<noteq> 0" and "max \<lfloor>log 2 \<bar>v\<bar>\<rfloor> (- 1022) = e"
    and "round_even (v / 2 powi (e - 52)) = 0"
  shows "binary64 v = Fin 0"
  unfolding binary64_def Let_def assms(2,3) using assms(1) by simp

lemma binary64_underflow:
  assumes "\<bar>v\<bar> < 2 powi (- 1075)"
  shows "binary64 v = Fin 0"
proof (cases "v = 0")
  case True
  then show ?thesis by (simp add: binary64_def)
next
  case False
  then have pos: "0 < \<bar>v\<bar>" by simp
  define e where "e = \<lfloor>log 2 \<bar>v\<bar>\<rfloor>"
  define E where "E = (- 1022 :: int)"
  have el: "2 powi e \<le> \<bar>v\<bar>" using floor_log2_bounds [OF pos] e_def by auto
  have "e \<le> - 1022"
  proof (rule ccontr)
    assume "\<not> e \<le> - 1022"
    then have "(2::real) powi (- 1075) \<le> 2 powi e"
      by (intro power_int_increasing) auto
    then show False using el assms by linarith
  qed
  then have m: "max \<lfloor>log 2 \<bar>v\<bar>\<rfloor> (- 1022) = E" using e_def E_def by simp
  define ulp where "ulp = (2::real) powi (E - 52)"
  have up: "0 < ulp" unfolding ulp_def by (rule zero_less_power_int) simp
  define F where "F = (- 1075 :: int)"
  have h: "E - 52 - F = 1" unfolding E_def F_def by simp
  have s1: "(2::real) powi (E - 52) = 2 powi F * 2 powi (E - 52 - F)" by (rule pow2_split)
  have s2: "(2::real) powi (E - 52 - F) = 2" unfolding h by simp
  have u2: "ulp = 2 powi F * 2" unfolding ulp_def by (subst s1) (simp only: s2)
  have "\<bar>v\<bar> < 2 powi F" using assms unfolding F_def .
  then have "\<bar>v\<bar> < ulp / 2" using u2 by linarith
  then have "\<bar>v / ulp\<bar> < 1 / 2" using up by (simp add: pos_divide_less_eq)
  then have "round_even (v / ulp) = 0" by (rule round_even_small)
  then have r: "round_even (v / 2 powi (E - 52)) = 0" unfolding ulp_def .
  from False m r show ?thesis by (rule binary64_zero_significand)
qed

lemma normalizePoints_r_underflow:
  assumes "r g = Fin g" and "r (- g) = Fin (- g)" and "r 0 = Fin 0" and "r (g * g) = Fin 0"
  shows "normalizePoints_r r [\<lparr>px = Fin g, py = Fin 0\<rparr>, \<lparr>px = Fin (- g), py = Fin 0\<rparr>]
         = [\<lparr>px = Fin g, py = Fin 0\<rparr>, \<lparr>px = Fin (- g), py = Fin 0\<rparr>]"
  using assms by (simp add: normalizePoints_r_def mean_r_def num_sub_def num_eq_def Let_def)

lemma b64_pow2:
  assumes "- 1022 \<le> k" and "k \<le> 1023"
  shows "binary64 (2 powi k) = Fin (2 powi k)" and "binary64 (- (2 powi k)) = Fin (- (2 powi k))"
proof -
  define g where "g = (2::real) powi k"
  have p: "0 < g" unfolding g_def by (rule zero_less_power_int) simp
  have "\<exists>y. binary64 g = Fin y \<and> 2 powi k \<le> \<bar>y\<bar> \<and> \<bar>y\<bar> \<le> 2 powi k \<and> (0 < g \<longleftrightarrow> 0 < y)"
    using p assms by (intro binary64_bounds) (simp_all add: g_def)
  then obtain y where y: "binary64 g = Fin y" "g \<le> \<bar>y\<bar>" "\<bar>y\<bar> \<le> g" "0 < g \<longleftrightarrow> 0 < y"
    unfolding g_def by blast
  from y(2,3,4) p have "y = g" by linarith
  with y(1) show "binary64 (2 powi k) = Fin (2 powi k)" unfolding g_def by simp
  have "\<exists>z. binary64 (- g) = Fin z \<and> 2 powi k \<le> \<bar>z\<bar> \<and> \<bar>z\<bar> \<le> 2 powi k \<and> (0 < - g \<longleftrightarrow> 0 < z)"
    using p assms by (intro binary64_bounds) (simp_all add: g_def)
  then obtain z where z: "binary64 (- g) = Fin z" "g \<le> \<bar>z\<bar>" "\<bar>z\<bar> \<le> g" "0 < - g \<longleftrightarrow> 0 < z"
    unfolding g_def by blast
  from z(2,3,4) p have "z = - g" by linarith
  with z(1) show "binary64 (- (2 powi k)) = Fin (- (2 powi k))" unfolding g_def by simp
qed

lemma normalize_tiny:
  "normalizePoints_r binary64
     [\<lparr>px = Fin (2 powi (- 600)), py = Fin 0\<rparr>, \<lparr>px = Fin (- (2 powi (- 600))), py = Fin 0\<rparr>]
   = [\<lparr>px = Fin (2 powi (- 600)), py = Fin 0\<rparr>, \<lparr>px = Fin (- (2 powi (- 600))), py = Fin 0\<rparr>]"
proof -
  define g where "g = (2::real) powi (- 600)"
  have "g * g = 2 powi (- 1200)"
    unfolding g_def using power_int_add [of "2::real" "- 600" "- 600"] by simp
  moreover have "(2::real) powi (- 1200) < 2 powi (- 1075)"
    by (intro power_int_strict_increasing) auto
  moreover have "0 < g * g" unfolding g_def by simp
  ultimately have "\<bar>g * g\<bar> < 2 powi (- 1075)" by simp
  then have u: "binary64 (g * g) = Fin 0" by (rule binary64_underflow)
  have "binary64 g = Fin g" "binary64 (- g) = Fin (- g)"
    unfolding g_def by (rule b64_pow2; simp)+
  then show ?thesis
    unfolding g_def [symmetric] using b64_zero u by (intro normalizePoints_r_underflow)
qed

lemma b64_small_ints:
  "binary64 1 = Fin 1" "binary64 (- 1) = Fin (- 1)" "binary64 2 = Fin 2"
  using b64_pow2 [of 0] b64_pow2 (1) [of 1] by simp_all

lemma normalize_unit:
  "normalizePoints_r binary64 [\<lparr>px = Fin 1, py = Fin 0\<rparr>, \<lparr>px = Fin (- 1), py = Fin 0\<rparr>]
   = [\<lparr>px = Fin 1, py = Fin 0\<rparr>, \<lparr>px = Fin (- 1), py = Fin 0\<rparr>]"
  by (simp add: normalizePoints_r_def mean_r_def num_sub_def num_eq_def Let_def
        b64_zero b64_small_ints)

lemma scale_unit:
  "scale_translate_r binary64 (Fin (2 powi (- 600))) \<lparr>px = Fin 0, py = Fin 0\<rparr>
     [\<lparr>px = Fin 1, py = Fin 0\<rparr>, \<lparr>px = Fin (- 1), py = Fin 0\<rparr>]
   = [\<lparr>px = Fin (2 powi (- 600)), py = Fin 0\<rparr>, \<lparr>px = Fin (- (2 powi (- 600))), py = Fin 0\<rparr>]"
  using b64_pow2 [of "- 600"] by (simp add: scale_translate_r_def b64_zero)

text \<open>
  The unit points \<open>(1, 0)\<close> and \<open>(-1, 0)\<close> are their own normalization. Scaled by
  \<open>s = 2 powi (-600)\<close> their squares underflow to zero, the test \<^verbatim>\<open>rms === 0\<close> succeeds
  although the points differ, and the scaled points are returned as they are: the
  normalization of \<open>s\<cdot>P\<close> is \<open>s\<cdot>P\<close> and not that of \<open>P\<close>.
\<close>

lemma normalize_scale_underflow:
  "0 < (2::real) powi (- 600) \<and>
   normalizePoints_r binary64
     (scale_translate_r binary64 (Fin (2 powi (- 600))) \<lparr>px = Fin 0, py = Fin 0\<rparr>
        [\<lparr>px = Fin 1, py = Fin 0\<rparr>, \<lparr>px = Fin (- 1), py = Fin 0\<rparr>])
     = [\<lparr>px = Fin (2 powi (- 600)), py = Fin 0\<rparr>, \<lparr>px = Fin (- (2 powi (- 600))), py = Fin 0\<rparr>] \<and>
   normalizePoints_r binary64 [\<lparr>px = Fin 1, py = Fin 0\<rparr>, \<lparr>px = Fin (- 1), py = Fin 0\<rparr>]
     = [\<lparr>px = Fin 1, py = Fin 0\<rparr>, \<lparr>px = Fin (- 1), py = Fin 0\<rparr>] \<and>
   (2::real) powi (- 600) < 1"
proof -
  have "(2::real) powi (- 600) < 2 powi 0"
    by (intro power_int_strict_increasing) auto
  then have "(2::real) powi (- 600) < 1" by simp
  moreover have "0 < (2::real) powi (- 600)" by simp
  ultimately show ?thesis
    unfolding scale_unit normalize_tiny normalize_unit by simp
qed

section \<open>The set distance\<close>




lemma num_max2_comm: "num_max2 a b = num_max2 b a"
  by (cases a; cases b) (auto simp: num_max2_def)



lemma euclid_nonneg: "0 \<le> euclid p q"
  by (simp add: euclid_def)

lemma nearest_nonneg: "B \<noteq> [] \<Longrightarrow> 0 \<le> nearest B a"
  by (simp add: nearest_def euclid_nonneg)










section \<open>The combiner\<close>

lemma combined_fin:
  "combinedSimilarity (Fin a) (Fin b) \<lparr>w_mhd = Fin w1, w_order = Fin w2\<rparr>
   = Fin (of_int (round (w1 * a + w2 * b)))"
  by (simp add: combinedSimilarity_def)




section \<open>The alignment distance\<close>

lemma dtw_inv_cell:
  assumes "dtw_inv a b t i j" and "r \<le> length a" and "c \<le> length b"
    and "r < i \<or> (r = i \<and> c < j) \<or> c = 0"
  shows "t ! r ! c = dtw_table a b r c"
  using assms unfolding dtw_inv_def by blast

lemma dtw_inv_shape:
  assumes "dtw_inv a b t i j" and "r \<le> length a"
  shows "r < length t \<and> length (t ! r) = Suc (length b)"
  using assms unfolding dtw_inv_def by auto

lemma dtw_inv_get:
  assumes "dtw_inv a b t i j" and "r \<le> length a" and "c \<le> length b"
    and "r < i \<or> (r = i \<and> c < j) \<or> c = 0"
  shows "get_cell t r c = Inr (dtw_table a b r c)"
  using dtw_inv_cell [OF assms] dtw_inv_shape [OF assms(1,2)] assms(3)
  by (simp add: get_cell_def)

lemma dtw_inner_step:
  assumes inv: "dtw_inv a b t i j" and i: "1 \<le> i" "i \<le> length a" and j: "1 \<le> j" "j \<le> length b"
  shows "\<exists>t'. set_cell t i j (num_add (num_abs (num_sub (array_get a (i - 1)) (array_get b (j - 1))))
                  (Math_min [dtw_table a b (i - 1) j, dtw_table a b i (j - 1), dtw_table a b (i - 1) (j - 1)]))
              = Inr t' \<and> dtw_inv a b t' i (Suc j)"
proof -
  obtain i' j' where ij: "i = Suc i'" "j = Suc j'"
    using i(1) j(1) by (metis One_nat_def Suc_le_D)
  let ?v = "num_add (num_abs (num_sub (array_get a (i - 1)) (array_get b (j - 1))))
                  (Math_min [dtw_table a b (i - 1) j, dtw_table a b i (j - 1), dtw_table a b (i - 1) (j - 1)])"
  have v: "?v = dtw_table a b i j"
    using i j ij by (simp add: array_get_def)
  have len: "length t = Suc (length a)" and row: "length (t ! i) = Suc (length b)"
    using inv i by (simp_all add: dtw_inv_def)
  let ?t' = "t[i := (t ! i)[j := ?v]]"
  have s: "set_cell t i j ?v = Inr ?t'"
    using len row i j by (simp add: set_cell_def array_set_def)
  have "dtw_inv a b ?t' i (Suc j)"
    unfolding dtw_inv_def
  proof (intro conjI allI impI)
    show "length ?t' = Suc (length a)" using len by simp
  next
    fix r assume "r \<le> length a"
    then show "length (?t' ! r) = Suc (length b)"
      using inv len by (cases "r = i") (simp_all add: dtw_inv_def)
  next
    fix r c
    assume r: "r \<le> length a" and c: "c \<le> length b"
      and h: "r < i \<or> r = i \<and> c < Suc j \<or> c = 0"
    show "?t' ! r ! c = dtw_table a b r c"
    proof (cases "r = i \<and> c = j")
      case True
      then show ?thesis using len row i j v by simp
    next
      case False
      then have "?t' ! r ! c = t ! r ! c"
        using len r by (cases "r = i") simp_all
      moreover have "r < i \<or> r = i \<and> c < j \<or> c = 0"
        using h False by auto
      ultimately show ?thesis
        using dtw_inv_cell [OF inv r c] by simp
    qed
  qed
  with s show ?thesis by blast
qed

lemma dtw_inner_correct:
  assumes "dtw_inv a b t i j" and "1 \<le> i" and "i \<le> length a" and "1 \<le> j"
  shows "\<exists>t'. dtw_inner a b i j t = Inr t' \<and> dtw_inv a b t' (Suc i) 1"
  using assms
proof (induction "Suc (length b) - j" arbitrary: j t)
  case 0
  then have jm: "\<not> j \<le> length b" by simp
  have "dtw_inv a b t (Suc i) 1"
    using "0.prems"(1) jm unfolding dtw_inv_def by (auto simp: less_Suc_eq)
  then show ?case using jm by (subst dtw_inner.simps) simp
next
  case (Suc k)
  then have jm: "j \<le> length b" by simp
  have inv: "dtw_inv a b t i j" by (rule Suc.prems(1))
  have g1: "get_cell t (i - 1) j = Inr (dtw_table a b (i - 1) j)"
    using Suc.prems(2,3) jm by (intro dtw_inv_get [OF inv]) auto
  have g2: "get_cell t i (j - 1) = Inr (dtw_table a b i (j - 1))"
    using Suc.prems(2,3,4) jm by (intro dtw_inv_get [OF inv]) auto
  have g3: "get_cell t (i - 1) (j - 1) = Inr (dtw_table a b (i - 1) (j - 1))"
    using Suc.prems(2,3) jm by (intro dtw_inv_get [OF inv]) auto
  obtain t' where t': "set_cell t i j (num_add (num_abs (num_sub (array_get a (i - 1)) (array_get b (j - 1))))
                  (Math_min [dtw_table a b (i - 1) j, dtw_table a b i (j - 1), dtw_table a b (i - 1) (j - 1)]))
              = Inr t'" and inv': "dtw_inv a b t' i (Suc j)"
    using dtw_inner_step [OF inv Suc.prems(2,3,4) jm] by blast
  have "k = Suc (length b) - Suc j" using Suc.hyps(2) by simp
  then obtain t'' where "dtw_inner a b i (Suc j) t' = Inr t''" and "dtw_inv a b t'' (Suc i) 1"
    using Suc.hyps(1) [of "Suc j" t'] inv' Suc.prems(2,3) by auto
  then show ?case
    using jm g1 g2 g3 t' by (subst dtw_inner.simps) (simp add: Let_def)
qed

lemma dtw_outer_correct:
  assumes "dtw_inv a b t i 1" and "1 \<le> i"
  shows "\<exists>t'. dtw_outer a b i t = Inr t' \<and> dtw_inv a b t' (Suc (length a)) 1"
  using assms
proof (induction "Suc (length a) - i" arbitrary: i t)
  case 0
  then have im: "\<not> i \<le> length a" by simp
  have "dtw_inv a b t (Suc (length a)) 1"
    using "0.prems"(1) im unfolding dtw_inv_def by auto
  then show ?case using im by (subst dtw_outer.simps) simp
next
  case (Suc k)
  then have im: "i \<le> length a" by simp
  obtain t' where t': "dtw_inner a b i 1 t = Inr t'" and inv': "dtw_inv a b t' (Suc i) 1"
    using dtw_inner_correct [OF Suc.prems(1,2) im] by auto
  have "k = Suc (length a) - Suc i" using Suc.hyps(2) by simp
  then obtain t'' where "dtw_outer a b (Suc i) t' = Inr t''" and "dtw_inv a b t'' (Suc (length a)) 1"
    using Suc.hyps(1) [of "Suc i" t'] inv' by auto
  then show ?case
    using im t' by (subst dtw_outer.simps) simp
qed

lemma dtw_init:
  "set_cell (replicate (Suc n) (replicate (Suc m) PInf)) 0 0 (Fin 0)
   = Inr ((replicate (Suc n) (replicate (Suc m) PInf))[0 := (replicate (Suc m) PInf)[0 := Fin 0]])"
  by (simp add: set_cell_def array_set_def)

lemma dtw_init_inv:
  "dtw_inv a b ((replicate (Suc (length a)) (replicate (Suc (length b)) PInf))
                  [0 := (replicate (Suc (length b)) PInf)[0 := Fin 0]]) 1 1"
  unfolding dtw_inv_def
proof (intro conjI allI impI)
  fix r c
  assume "r \<le> length a" "c \<le> length b" "r < 1 \<or> r = 1 \<and> c < 1 \<or> c = 0"
  then show "(replicate (Suc (length a)) (replicate (Suc (length b)) PInf))
                  [0 := (replicate (Suc (length b)) PInf)[0 := Fin 0]] ! r ! c = dtw_table a b r c"
    by (cases r; cases c) auto
next
  fix r assume "r \<le> length a"
  then show "length ((replicate (Suc (length a)) (replicate (Suc (length b)) PInf))
                  [0 := (replicate (Suc (length b)) PInf)[0 := Fin 0]] ! r) = Suc (length b)"
    by (cases r) auto
qed simp

lemma dtwDistance_reference: "dtwDistance seqA seqB = Inr (dtw_reference seqA seqB)"
proof (cases "seqA = [] \<or> seqB = []")
  case True
  then show ?thesis by (auto simp: dtwDistance_def dtw_reference_def)
next
  case False
  obtain t where t: "dtw_outer seqA seqB 1
      ((replicate (Suc (length seqA)) (replicate (Suc (length seqB)) PInf))
          [0 := (replicate (Suc (length seqB)) PInf)[0 := Fin 0]]) = Inr t"
    and inv: "dtw_inv seqA seqB t (Suc (length seqA)) 1"
    using dtw_outer_correct [OF dtw_init_inv, of seqA seqB] by auto
  have "get_cell t (length seqA) (length seqB)
        = Inr (dtw_table seqA seqB (length seqA) (length seqB))"
    by (intro dtw_inv_get [OF inv]) auto
  then show ?thesis
    using False t dtw_init [of "length seqA" "length seqB"]
    by (simp add: dtwDistance_def dtw_reference_def Let_def)
qed

text \<open>
  Claim C4. \<open>dtwDistance\<close> returns \<open>+\<infinity>\<close> when either sequence is empty and otherwise
  the value of the reference definition: the last cell of the dynamic-programming table
  divided by the length of the longer sequence. It never raises.
\<close>

theorem dtw_refines_reference:
  "dtwDistance [] seqB = Inr PInf \<and> dtwDistance seqA [] = Inr PInf \<and>
   dtwDistance seqA seqB = Inr (dtw_reference seqA seqB)"
  using dtwDistance_reference [of seqA seqB] by (simp add: dtwDistance_def)

section \<open>The order similarity\<close>

lemma insert_by_fin:
  "insert_by (\<lambda>a b. num_sub (py a) (py b)) (fin_pt p) (map fin_pt P)
   = map fin_pt (insort_key snd p P)"
  by (induction P) (auto simp: fin_pt_def num_sub_def)

lemma sort_by_fin:
  "sort_by (\<lambda>a b. num_sub (py a) (py b)) (map fin_pt P) = map fin_pt (sort_key snd P)"
  by (induction P) (simp_all add: sort_by_def insert_by_fin)

lemma fold_max_Fin:
  "fold (\<lambda>v acc. num_max2 acc v) (map Fin xs) (Fin a) = Fin (Max (insert a (set xs)))"
proof (induction xs arbitrary: a)
  case Nil
  show ?case by simp
next
  case (Cons x xs)
  have "num_max2 (Fin a) (Fin x) = Fin (max a x)"
    by (simp add: num_max2_def max_def)
  moreover have "Max (insert (max a x) (set xs)) = Max (insert a (insert x (set xs)))"
    by (cases "xs = []") (simp_all add: max.assoc)
  ultimately show ?case using Cons.IH [of "max a x"] by simp
qed

lemma Math_max_Fin: "xs \<noteq> [] \<Longrightarrow> Math_max (map Fin xs) = Fin (Max (set xs))"
proof (cases xs)
  case Nil
  assume "xs \<noteq> []"
  with Nil show ?thesis by simp
next
  case (Cons x ys)
  have "num_max2 NInf (Fin x) = Fin x"
    by (simp add: num_max2_def)
  then show ?thesis
    using Cons fold_max_Fin [of ys x] by (simp add: Math_max_def)
qed

lemma scale_fin:
  "hi \<noteq> lo \<Longrightarrow>
   num_div (num_sub (Fin v) (Fin lo)) (num_sub (Fin hi) (Fin lo)) = Fin ((v - lo) / (hi - lo))"
  by (simp add: num_sub_def)

lemma normalize_seq_fin:
  assumes "xs \<noteq> []"
  shows "normalize_seq (map Fin xs) = map Fin (minmax xs)"
proof -
  define lo where "lo = Min (set xs)"
  define hi where "hi = Max (set xs)"
  have mn: "Math_min (map Fin xs) = Fin lo" and mx: "Math_max (map Fin xs) = Fin hi"
    using assms by (simp_all add: Math_min_Fin Math_max_Fin lo_def hi_def)
  have m: "minmax xs = (if hi = lo then map (\<lambda>_. 1 / 2) xs
                        else map (\<lambda>v. (v - lo) / (hi - lo)) xs)"
    by (simp add: minmax_def lo_def hi_def)
  show ?thesis
    unfolding normalize_seq_def Let_def mn mx m
    by (simp add: num_eq_def scale_fin comp_def)
qed


lemma min3_fin:
  assumes "nonneg_or_inf u" and "nonneg_or_inf v" and "nonneg_or_inf w"
    and "u \<noteq> PInf \<or> v \<noteq> PInf \<or> w \<noteq> PInf"
  shows "\<exists>d\<ge>0. Math_min [u, v, w] = Fin d"
  using assms
  by (cases u; cases v; cases w)
     (auto simp: nonneg_or_inf_def Math_min_def num_min2_def)

lemma dtw_cell_fin:
  assumes "i < length xs" and "j < length ys"
    and "nonneg_or_inf u" and "nonneg_or_inf v" and "nonneg_or_inf w"
    and "u \<noteq> PInf \<or> v \<noteq> PInf \<or> w \<noteq> PInf"
  shows "\<exists>d\<ge>0. num_add (num_abs (num_sub (map Fin xs ! i) (map Fin ys ! j)))
                         (Math_min [u, v, w]) = Fin d"
proof -
  obtain e where e: "0 \<le> e" "Math_min [u, v, w] = Fin e"
    using min3_fin [OF assms(3-6)] by blast
  have "num_add (num_abs (num_sub (map Fin xs ! i) (map Fin ys ! j))) (Fin e)
        = Fin (\<bar>xs ! i - ys ! j\<bar> + e)"
    using assms(1,2) by (simp add: num_sub_def)
  moreover have "0 \<le> \<bar>xs ! i - ys ! j\<bar> + e" using e(1) by simp
  ultimately show ?thesis using e(2) by metis
qed

lemma dtw_table_pos:
  assumes "i < length xs" and "j < length ys"
  shows "\<exists>d\<ge>0. dtw_table (map Fin xs) (map Fin ys) (Suc i) (Suc j) = Fin d"
  using assms
proof (induction i arbitrary: j)
  case 0
  then show ?case
  proof (induction j)
    case 0
    then show ?case
      using dtw_cell_fin [of 0 xs 0 ys PInf PInf "Fin 0"] by (simp add: nonneg_or_inf_def)
  next
    case (Suc j)
    then obtain d where "0 \<le> d" "dtw_table (map Fin xs) (map Fin ys) (Suc 0) (Suc j) = Fin d"
      by auto
    then show ?case
      using Suc.prems dtw_cell_fin [of 0 xs "Suc j" ys PInf "Fin d" PInf]
      by (simp add: nonneg_or_inf_def)
  qed
next
  case (Suc i)
  have up: "\<exists>d\<ge>0. dtw_table (map Fin xs) (map Fin ys) (Suc i) (Suc c) = Fin d"
    if "c < length ys" for c
    using Suc.IH [of c] Suc.prems(1) that by simp
  from Suc.prems(2) show ?case
  proof (induction j)
    case 0
    obtain d where "0 \<le> d" "dtw_table (map Fin xs) (map Fin ys) (Suc i) (Suc 0) = Fin d"
      using up [of 0] 0 by auto
    then show ?case
      using Suc.prems(1) 0 dtw_cell_fin [of "Suc i" xs 0 ys "Fin d" PInf PInf]
      by (simp add: nonneg_or_inf_def)
  next
    case (Suc j)
    obtain u where u: "0 \<le> u" "dtw_table (map Fin xs) (map Fin ys) (Suc i) (Suc (Suc j)) = Fin u"
      using up [of "Suc j"] Suc.prems by auto
    obtain w where w: "0 \<le> w" "dtw_table (map Fin xs) (map Fin ys) (Suc i) (Suc j) = Fin w"
      using up [of j] Suc.prems by auto
    obtain v where v: "0 \<le> v" "dtw_table (map Fin xs) (map Fin ys) (Suc (Suc i)) (Suc j) = Fin v"
      using Suc.IH Suc.prems by auto
    show ?case
      using \<open>Suc i < length xs\<close> Suc.prems u v w
        dtw_cell_fin [of "Suc i" xs "Suc j" ys "Fin u" "Fin v" "Fin w"]
      by (simp add: nonneg_or_inf_def)
  qed
qed

lemma dtwDistance_fin:
  assumes "xs \<noteq> []" and "ys \<noteq> []"
  shows "\<exists>d\<ge>0. dtwDistance (map Fin xs) (map Fin ys) = Inr (Fin d)"
proof -
  obtain i j where ij: "length xs = Suc i" "length ys = Suc j"
    using assms by (metis length_0_conv not0_implies_Suc)
  then obtain d where d: "0 \<le> d"
      "dtw_table (map Fin xs) (map Fin ys) (length xs) (length ys) = Fin d"
    using dtw_table_pos [of i xs j ys] by auto
  have "dtw_reference (map Fin xs) (map Fin ys) = Fin (d / real (max (length xs) (length ys)))"
    using assms d(2) ij by (simp add: dtw_reference_def)
  moreover have "0 \<le> d / real (max (length xs) (length ys))"
    using d(1) by simp
  ultimately show ?thesis
    using dtwDistance_reference [of "map Fin xs" "map Fin ys"] by metis
qed

lemma order_convert:
  assumes "0 \<le> d"
  shows "(if num_ge (Fin d) (Fin 1) then Inr (Fin 0)
          else Inr (num_round (num_mul (num_sub (Fin 1) (num_div (Fin d) (Fin 1))) (Fin 100))))
         = (Inr (Fin (of_int (round (100 * max 0 (1 - d))))) :: error + number)"
  by (auto simp: num_ge_def num_eq_def num_sub_def max_def mult.commute)

lemma relativeOrderSimilarity_fin:
  assumes "P \<noteq> []" and "Q \<noteq> []" and "\<not> (length P = 1 \<and> length Q = 1)"
  shows "\<exists>d\<ge>0. dtwDistance (map Fin (minmax (orderedProjection P)))
                              (map Fin (minmax (orderedProjection Q))) = Inr (Fin d) \<and>
                relativeOrderSimilarity (map fin_pt P) (map fin_pt Q)
                  = Inr (Fin (of_int (round (100 * max 0 (1 - d)))))"
proof -
  have pne: "orderedProjection P \<noteq> []" and qne: "orderedProjection Q \<noteq> []"
    using assms(1,2) length_sort [of snd P] length_sort [of snd Q]
    by (auto simp: orderedProjection_def simp del: length_sort)
  have mne: "minmax (orderedProjection P) \<noteq> []" "minmax (orderedProjection Q) \<noteq> []"
    using pne qne by (simp_all add: minmax_def)
  obtain d where d: "0 \<le> d"
      "dtwDistance (map Fin (minmax (orderedProjection P)))
                   (map Fin (minmax (orderedProjection Q))) = Inr (Fin d)"
    using dtwDistance_fin [OF mne] by blast
  have xa: "map px (sort_by (\<lambda>a b. num_sub (py a) (py b)) (map fin_pt P))
            = map Fin (orderedProjection P)"
    by (simp add: sort_by_fin orderedProjection_def comp_def fin_pt_def)
  have xb: "map px (sort_by (\<lambda>a b. num_sub (py a) (py b)) (map fin_pt Q))
            = map Fin (orderedProjection Q)"
    by (simp add: sort_by_fin orderedProjection_def comp_def fin_pt_def)
  have "relativeOrderSimilarity (map fin_pt P) (map fin_pt Q)
        = Inr (Fin (of_int (round (100 * max 0 (1 - d)))))"
    unfolding relativeOrderSimilarity_def Let_def xa xb
      normalize_seq_fin [OF pne] normalize_seq_fin [OF qne] d(2)
    using assms order_convert [OF d(1)] by auto
  with d show ?thesis by blast
qed







section \<open>Finite inputs stay finite\<close>

lemma is_fin_conv: "is_fin v \<longleftrightarrow> (\<exists>a. v = Fin a)"
  by (cases v) simp_all

lemma finite_point_fin: "finite_point p \<Longrightarrow> fin_pt (fin_val (px p), fin_val (py p)) = p"
  by (cases "px p"; cases "py p") (simp_all add: finite_point_def fin_pt_def)

lemma finite_points_fin:
  "list_all finite_point ps \<Longrightarrow> ps = map fin_pt (map (\<lambda>p. (fin_val (px p), fin_val (py p))) ps)"
  by (induction ps) (simp_all add: finite_point_fin)

lemma normalizePoints_finite: "\<exists>N. normalizePoints (map fin_pt P) = map fin_pt N"
proof -
  consider "length P = 0" | "length P = 1" | "2 \<le> length P" by linarith
  then show ?thesis
  proof cases
    case 1
    then have "normalizePoints (map fin_pt P) = map fin_pt []" by (simp add: normalizePoints_def)
    then show ?thesis by (rule exI)
  next
    case 2
    then have "normalizePoints (map fin_pt P) = map fin_pt [(0, 0)]"
      by (simp add: normalizePoints_def fin_pt_def)
    then show ?thesis by (rule exI)
  next
    case 3
    have "normalizePoints (map fin_pt P)
          = map fin_pt (if rms P = 0 then centered P
                        else map (\<lambda>p. (fst p / rms P, snd p / rms P)) (centered P))"
      by (simp add: normalizePoints_fin [OF 3] comp_def)
    then show ?thesis by (rule exI)
  qed
qed

lemma mean_nearest_nonneg: "B \<noteq> [] \<Longrightarrow> 0 \<le> mean_nearest A B"
proof -
  assume "B \<noteq> []"
  then have "0 \<le> sum_list (map (nearest B) A)"
    by (intro sum_list_nonneg) (auto simp: nearest_nonneg)
  then show ?thesis by (simp add: mean_nearest_def)
qed

lemma mhd_finite:
  "nonneg_or_inf (modifiedHausdorffDistance (map fin_pt A) (map fin_pt B))"
proof (cases "A = [] \<or> B = []")
  case True
  then show ?thesis by (auto simp: modifiedHausdorffDistance_def nonneg_or_inf_def)
next
  case False
  then have "0 \<le> max (mean_nearest A B) (mean_nearest B A)"
    using mean_nearest_nonneg [of B A] by simp
  then show ?thesis using False by (simp add: mhd_fin nonneg_or_inf_def)
qed

lemma distanceToSimilarity_finite:
  assumes "nonneg_or_inf d"
  shows "\<exists>s. distanceToSimilarity d (Fin M) = Fin (of_int s)"
proof (cases d)
  case (Fin m)
  then have m: "0 \<le> m" using assms by (simp add: nonneg_or_inf_def)
  show ?thesis
  proof (cases "M \<le> m")
    case True
    then have "distanceToSimilarity d (Fin M) = Fin (of_int 0)"
      using Fin by (auto simp: distanceToSimilarity_def num_ge_def num_eq_def)
    then show ?thesis by blast
  next
    case False
    then have "M \<noteq> 0" using m by auto
    then have "distanceToSimilarity d (Fin M)
               = Fin (of_int (round (max 0 (1 - m / M) * 100)))"
      using Fin False
      by (simp add: distanceToSimilarity_def num_ge_def num_eq_def num_sub_def
            Math_max_pair_Fin Let_def)
    then show ?thesis by blast
  qed
next
  case PInf
  then have "distanceToSimilarity d (Fin M) = Fin (of_int 0)"
    by (simp add: distanceToSimilarity_def num_ge_def)
  then show ?thesis by blast
qed (use assms in \<open>simp_all add: nonneg_or_inf_def\<close>)

lemma relativeOrderSimilarity_finite:
  "\<exists>r. relativeOrderSimilarity (map fin_pt P) (map fin_pt Q) = Inr (Fin (of_int r))"
proof -
  consider "P = [] \<or> Q = []" | "length P = 1 \<and> length Q = 1"
    | "P \<noteq> []" "Q \<noteq> []" "\<not> (length P = 1 \<and> length Q = 1)" by blast
  then show ?thesis
  proof cases
    case 1
    then have "relativeOrderSimilarity (map fin_pt P) (map fin_pt Q) = Inr (Fin (of_int 0))"
      by (auto simp: relativeOrderSimilarity_def)
    then show ?thesis by blast
  next
    case 2
    then have "relativeOrderSimilarity (map fin_pt P) (map fin_pt Q) = Inr (Fin (of_int 100))"
      by (auto simp: relativeOrderSimilarity_def)
    then show ?thesis by blast
  next
    case 3
    then show ?thesis using relativeOrderSimilarity_fin [of P Q] by blast
  qed
qed

lemma merge_options_finite:
  "finite_options options \<Longrightarrow> finite_opts (merge_options DEFAULT_OPTIONS options)"
  by (simp add: finite_options_def finite_opts_def merge_options_def DEFAULT_OPTIONS_def
           split: option.splits)

lemma image_similarity_finite:
  assumes "list_all finite_point q" and "finite_image img" and "finite_opts opts"
  shows "\<exists>z. image_similarity q opts img = Inr (Fin z)"
proof -
  obtain Q where Q: "q = map fin_pt Q" using assms(1) finite_points_fin by blast
  obtain I J where I: "points img = map fin_pt I" and J: "normalizedPoints img = map fin_pt J"
    using assms(2) finite_points_fin unfolding finite_image_def by blast
  obtain N where N: "normalizePoints q = map fin_pt N"
    using Q normalizePoints_finite by blast
  obtain M w1 w2 where o: "opt_maxDistance opts = Fin M" "opt_mhdWeight opts = Fin w1"
      "opt_orderWeight opts = Fin w2"
    using assms(3) unfolding finite_opts_def is_fin_conv by blast
  obtain s where s: "distanceToSimilarity
      (modifiedHausdorffDistance (normalizePoints q) (normalizedPoints img)) (Fin M) = Fin (of_int s)"
    unfolding N J using distanceToSimilarity_finite [OF mhd_finite] by blast
  obtain r where r: "relativeOrderSimilarity q (points img) = Inr (Fin (of_int r))"
    unfolding Q I using relativeOrderSimilarity_finite by blast
  show ?thesis
    unfolding image_similarity_def Let_def o s r
    by (simp add: combined_fin)
qed

lemma mean_finite: "\<exists>m. mean (map Fin xs) = Fin m"
  by (rule exI, rule mean_Fin)

lemma normalize_seq_finite: "\<exists>ns. normalize_seq (map Fin xs) = map Fin ns"
proof (cases "xs = []")
  case True
  then have "normalize_seq (map Fin xs) = map Fin []" by (simp add: normalize_seq_def Let_def)
  then show ?thesis by (rule exI)
next
  case False
  then show ?thesis using normalize_seq_fin by (intro exI)
qed

lemma distanceToSimilarity_value: "distanceToSimilarity (Fin d) (Fin M) \<noteq> NaN"
proof (cases "M \<le> d")
  case True
  then show ?thesis by (auto simp: distanceToSimilarity_def num_ge_def num_eq_def)
next
  case False
  then show ?thesis
    by (cases "M = 0")
       (simp_all add: distanceToSimilarity_def num_ge_def num_eq_def num_sub_def
          Math_max_def num_max2_def Let_def)
qed

lemma dtwDistance_finite:
  "\<exists>v. dtwDistance (map Fin xs) (map Fin ys) = Inr v \<and> nonneg_or_inf v"
proof (cases "xs = [] \<or> ys = []")
  case True
  then have "dtwDistance (map Fin xs) (map Fin ys) = Inr PInf"
    by (auto simp: dtwDistance_def)
  then show ?thesis by (simp add: nonneg_or_inf_def)
next
  case False
  then obtain d where "0 \<le> d" "dtwDistance (map Fin xs) (map Fin ys) = Inr (Fin d)"
    using dtwDistance_fin [of xs ys] by blast
  then show ?thesis by (simp add: nonneg_or_inf_def)
qed

section \<open>Ranking and search\<close>

lemma insert_by_similarity:
  assumes "is_fin (similarity v)" and "\<forall>e\<in>set ws. is_fin (similarity e)"
  shows "insert_by (\<lambda>a b. num_sub (similarity b) (similarity a)) v ws
         = insort_key (\<lambda>e. - fin_val (similarity e)) v ws"
  using assms(2)
proof (induction ws)
  case Nil
  show ?case by simp
next
  case (Cons w ws)
  obtain a b where "similarity v = Fin a" "similarity w = Fin b"
    using assms(1) Cons.prems by (auto simp: is_fin_conv)
  then show ?case using Cons by (simp add: num_sub_def not_less)
qed

lemma sort_by_similarity:
  assumes "\<forall>e\<in>set vs. is_fin (similarity e)"
  shows "sort_by (\<lambda>a b. num_sub (similarity b) (similarity a)) vs
         = sort_key (\<lambda>e. - fin_val (similarity e)) vs"
  using assms
proof (induction vs)
  case Nil
  show ?case by (simp add: sort_by_def)
next
  case (Cons v vs)
  then have "sort_by (\<lambda>a b. num_sub (similarity b) (similarity a)) vs
             = sort_key (\<lambda>e. - fin_val (similarity e)) vs" by simp
  moreover have "\<forall>e\<in>set (sort_key (\<lambda>e. - fin_val (similarity e)) vs). is_fin (similarity e)"
    using Cons.prems by simp
  ultimately show ?case
    using Cons.prems insert_by_similarity [of v "sort_key (\<lambda>e. - fin_val (similarity e)) vs"]
    by (simp add: sort_by_def)
qed



lemma sort_by_mset:
  assumes "\<forall>e\<in>set vs. is_fin (similarity e)"
  shows "mset (sort_by (\<lambda>a b. num_sub (similarity b) (similarity a)) vs) = mset vs"
  using sort_by_similarity [OF assms] by simp


lemma slice0_neg: "e < 0 \<Longrightarrow> slice0 vs e = take (length vs - nat (- e)) vs"
proof -
  assume "e < 0"
  then have "nat (max (int (length vs) + e) 0) = length vs - nat (- e)" by linarith
  then show ?thesis using \<open>e < 0\<close> by (simp add: slice0_def Let_def)
qed

lemma image_similarity_InrD:
  assumes "image_similarity q opts img = Inr v"
  shows "\<exists>orderSim. relativeOrderSimilarity q (points img) = Inr orderSim \<and>
           combinedSimilarity
             (distanceToSimilarity
                (modifiedHausdorffDistance (normalizePoints q) (normalizedPoints img))
                (opt_maxDistance opts))
             orderSim \<lparr>w_mhd = opt_mhdWeight opts, w_order = opt_orderWeight opts\<rparr> = v"
  using assms by (auto simp: image_similarity_def Let_def split: sum.splits)

lemma best_image_loop_step:
  assumes "image_similarity q opts img = Inr (Fin z)"
  shows "best_image_loop q (normalizePoints q) opts (img # rest) (Fin b) bid
         = (if b < z then best_image_loop q (normalizePoints q) opts rest (Fin z) (image_id img)
            else best_image_loop q (normalizePoints q) opts rest (Fin b) bid)"
proof -
  obtain orderSim where "relativeOrderSimilarity q (points img) = Inr orderSim"
    and "combinedSimilarity
             (distanceToSimilarity
                (modifiedHausdorffDistance (normalizePoints q) (normalizedPoints img))
                (opt_maxDistance opts))
             orderSim \<lparr>w_mhd = opt_mhdWeight opts, w_order = opt_orderWeight opts\<rparr> = Fin z"
    using image_similarity_InrD [OF assms] by blast
  then show ?thesis by (simp add: Let_def)
qed

lemma best_image_loop_fin:
  assumes "map (image_similarity q opts) imgs = map (\<lambda>z. Inr (Fin z)) zs"
  shows "\<exists>bid'. best_image_loop q (normalizePoints q) opts imgs (Fin b) bid
                   = Inr (Fin (fold max zs b), bid') \<and>
                 ((\<forall>z\<in>set zs. z \<le> b) \<longrightarrow> bid' = bid) \<and>
                 (\<forall>i<length zs. b < zs ! i \<and> (\<forall>z\<in>set zs. z \<le> zs ! i) \<and> (\<forall>j<i. zs ! j < zs ! i)
                    \<longrightarrow> bid' = image_id (imgs ! i))"
  using assms
proof (induction imgs arbitrary: zs b bid)
  case Nil
  then show ?case by simp
next
  case (Cons img rest)
  then obtain z zs' where zs: "zs = z # zs'" by (cases zs) auto
  with Cons.prems have z: "image_similarity q opts img = Inr (Fin z)"
    and rest: "map (image_similarity q opts) rest = map (\<lambda>z. Inr (Fin z)) zs'" by simp_all
  note step = best_image_loop_step [OF z, of rest b bid]
  show ?case
  proof (cases "b < z")
    case True
    obtain bid' where r: "best_image_loop q (normalizePoints q) opts rest (Fin z) (image_id img)
                   = Inr (Fin (fold max zs' z), bid')"
      and same: "(\<forall>u\<in>set zs'. u \<le> z) \<longrightarrow> bid' = image_id img"
      and first: "\<forall>i<length zs'. z < zs' ! i \<and> (\<forall>u\<in>set zs'. u \<le> zs' ! i) \<and> (\<forall>j<i. zs' ! j < zs' ! i)
                    \<longrightarrow> bid' = image_id (rest ! i)"
      using Cons.IH [OF rest, of z "image_id img"] by blast
    have f: "bid' = image_id ((img # rest) ! i)"
      if i: "i < length zs" and c: "b < zs ! i \<and> (\<forall>u\<in>set zs. u \<le> zs ! i) \<and> (\<forall>j<i. zs ! j < zs ! i)" for i
    proof (cases i)
      case 0
      then show ?thesis using same c zs by simp
    next
      case (Suc k)
      have "zs ! 0 < zs ! i" using c Suc by blast
      moreover have "\<forall>j<k. zs' ! j < zs' ! k"
      proof (intro allI impI)
        fix j assume "j < k"
        then have "zs ! Suc j < zs ! i" using c Suc by auto
        then show "zs' ! j < zs' ! k" using zs Suc by simp
      qed
      ultimately show ?thesis using first i c zs Suc by simp
    qed
    have e: "best_image_loop q (normalizePoints q) opts (img # rest) (Fin b) bid
             = Inr (Fin (fold max zs b), bid')"
      using True r zs unfolding step by (simp add: max_def)
    have s: "(\<forall>u\<in>set zs. u \<le> b) \<longrightarrow> bid' = bid"
      using True zs by auto
    from e s f show ?thesis by blast
  next
    case False
    obtain bid' where r: "best_image_loop q (normalizePoints q) opts rest (Fin b) bid
                   = Inr (Fin (fold max zs' b), bid')"
      and same: "(\<forall>u\<in>set zs'. u \<le> b) \<longrightarrow> bid' = bid"
      and first: "\<forall>i<length zs'. b < zs' ! i \<and> (\<forall>u\<in>set zs'. u \<le> zs' ! i) \<and> (\<forall>j<i. zs' ! j < zs' ! i)
                    \<longrightarrow> bid' = image_id (rest ! i)"
      using Cons.IH [OF rest, of b bid] by blast
    have f: "bid' = image_id ((img # rest) ! i)"
      if i: "i < length zs" and c: "b < zs ! i \<and> (\<forall>u\<in>set zs. u \<le> zs ! i) \<and> (\<forall>j<i. zs ! j < zs ! i)" for i
    proof (cases i)
      case 0
      then show ?thesis using False c zs by simp
    next
      case (Suc k)
      have "\<forall>j<k. zs' ! j < zs' ! k"
      proof (intro allI impI)
        fix j assume "j < k"
        then have "zs ! Suc j < zs ! i" using c Suc by auto
        then show "zs' ! j < zs' ! k" using zs Suc by simp
      qed
      then show ?thesis using first i c zs Suc by simp
    qed
    have e: "best_image_loop q (normalizePoints q) opts (img # rest) (Fin b) bid
             = Inr (Fin (fold max zs b), bid')"
      using False r zs unfolding step by (simp add: max_def)
    have s: "(\<forall>u\<in>set zs. u \<le> b) \<longrightarrow> bid' = bid"
      using same zs by auto
    from e s f show ?thesis by blast
  qed
qed

lemma images_scores:
  assumes "list_all finite_point q" and "finite_opts opts" and "list_all finite_image imgs"
  shows "\<exists>zs. map (image_similarity q opts) imgs = map (\<lambda>z. Inr (Fin z)) zs"
  using assms(3)
proof (induction imgs)
  case Nil
  show ?case by simp
next
  case (Cons img imgs)
  then obtain zs where zs: "map (image_similarity q opts) imgs = map (\<lambda>z. Inr (Fin z)) zs"
    by auto
  obtain z where "image_similarity q opts img = Inr (Fin z)"
    using image_similarity_finite [OF assms(1) _ assms(2), of img] Cons.prems by auto
  then have "map (image_similarity q opts) (img # imgs) = map (\<lambda>z. Inr (Fin z)) (z # zs)"
    using zs by simp
  then show ?case by (rule exI)
qed

lemma route_entry:
  assumes "list_all finite_point q" and "finite_opts opts" and "finite_route r"
  shows "\<exists>s bid zs. best_image_loop q (normalizePoints q) opts (images r) (Fin 0) [] = Inr (s, bid) \<and>
           scored_entry q opts \<lparr>route = r, similarity = s, matchedImageId = bid\<rparr> zs"
proof -
  obtain zs where zs: "map (image_similarity q opts) (images r) = map (\<lambda>z. Inr (Fin z)) zs"
    using images_scores [OF assms(1,2)] assms(3) unfolding finite_route_def by blast
  obtain bid where b: "best_image_loop q (normalizePoints q) opts (images r) (Fin 0) []
                   = Inr (Fin (fold max zs 0), bid)"
    and same: "(\<forall>z\<in>set zs. z \<le> 0) \<longrightarrow> bid = []"
    and first: "\<forall>i<length zs. 0 < zs ! i \<and> (\<forall>z\<in>set zs. z \<le> zs ! i) \<and> (\<forall>j<i. zs ! j < zs ! i)
                    \<longrightarrow> bid = image_id (images r ! i)"
    using best_image_loop_fin [OF zs, of 0 "[]"] by blast
  have m: "fold max zs 0 = Max (insert 0 (set zs))"
    using Max.set_eq_fold [of 0 zs] by simp
  have se: "scored_entry q opts \<lparr>route = r, similarity = Fin (fold max zs 0), matchedImageId = bid\<rparr> zs"
    unfolding scored_entry_def using zs same first m by simp
  show ?thesis
    by (rule exI [of _ "Fin (fold max zs 0)"], rule exI [of _ bid], rule exI [of _ zs])
       (intro conjI b se)
qed

lemma routes_loop_fin:
  assumes "list_all finite_point q" and "finite_opts opts" and "list_all finite_route routes"
  shows "\<exists>scored. routes_loop q (normalizePoints q) opts routes results = Inr (results @ scored) \<and>
           map route scored = routes \<and> (\<forall>e\<in>set scored. \<exists>zs. scored_entry q opts e zs)"
  using assms(3)
proof (induction routes arbitrary: results)
  case Nil
  show ?case by simp
next
  case (Cons r routes)
  then have fr: "finite_route r" and frs: "list_all finite_route routes" by simp_all
  obtain s bid zs where b: "best_image_loop q (normalizePoints q) opts (images r) (Fin 0) [] = Inr (s, bid)"
    and e: "scored_entry q opts \<lparr>route = r, similarity = s, matchedImageId = bid\<rparr> zs"
    using route_entry [OF assms(1,2) fr] by blast
  let ?e = "\<lparr>route = r, similarity = s, matchedImageId = bid\<rparr>"
  obtain scored where l: "routes_loop q (normalizePoints q) opts routes (results @ [?e])
                          = Inr ((results @ [?e]) @ scored)"
    and m: "map route scored = routes" and g: "\<forall>e\<in>set scored. \<exists>zs. scored_entry q opts e zs"
    using Cons.IH [OF frs, of "results @ [?e]"] by blast
  have a1: "routes_loop q (normalizePoints q) opts (r # routes) results = Inr (results @ (?e # scored))"
    using b l by simp
  have a2: "map route (?e # scored) = r # routes" using m by simp
  have a3: "\<forall>e\<in>set (?e # scored). \<exists>zs. scored_entry q opts e zs" using e g by auto
  show ?case
    by (rule exI [of _ "?e # scored"]) (intro conjI a1 a2 a3)
qed

lemma searchRoutes_fin:
  assumes "list_all finite_point q" and "list_all finite_route routes" and "finite_options options"
  shows "\<exists>scored. searchRoutes q routes k options
                    = Inr (slice0 (sort_by (\<lambda>a b. num_sub (similarity b) (similarity a)) scored) k) \<and>
           map route scored = routes \<and>
           (\<forall>e\<in>set scored. \<exists>zs. scored_entry q (merge_options DEFAULT_OPTIONS options) e zs)"
proof -
  have o: "finite_opts (merge_options DEFAULT_OPTIONS options)"
    using assms(3) by (rule merge_options_finite)
  obtain scored where
    l: "routes_loop q (normalizePoints q) (merge_options DEFAULT_OPTIONS options) routes []
        = Inr ([] @ scored)"
    and m: "map route scored = routes"
    and g: "\<forall>e\<in>set scored. \<exists>zs. scored_entry q (merge_options DEFAULT_OPTIONS options) e zs"
    using routes_loop_fin [OF assms(1) o assms(2), of "[]"] by blast
  have s: "searchRoutes q routes k options
        = Inr (slice0 (sort_by (\<lambda>a b. num_sub (similarity b) (similarity a)) scored) k)"
    using l by (simp add: searchRoutes_def Let_def)
  show ?thesis
    by (rule exI [of _ scored]) (intro conjI s m g)
qed

lemma scored_entry_fin: "scored_entry q opts e zs \<Longrightarrow> is_fin (similarity e)"
  by (simp add: scored_entry_def)

lemma set_slice0: "set (slice0 vs e) \<subseteq> set vs"
  by (simp add: slice0_def Let_def set_take_subset)




subsection \<open>Evaluation on example data\<close>

lemma example_mhd: "modifiedHausdorffDistance [origin] [origin] = Fin 0"
  by (simp add: modifiedHausdorffDistance_def origin_def distance_def num_sub_def Math_min_def
        num_min2_def mean_def Math_max_def num_max2_def)

lemma example_order: "relativeOrderSimilarity [origin] [origin] = Inr (Fin 100)"
  by (simp add: relativeOrderSimilarity_def)

lemma example_d2s: "0 < M \<Longrightarrow> distanceToSimilarity (Fin 0) (Fin M) = Fin 100"
  by (simp add: distanceToSimilarity_def num_ge_def num_eq_def num_sub_def Math_max_def
        num_max2_def)

lemma example_normalize: "normalizePoints [origin] = [origin]"
  by (simp add: normalizePoints_def origin_def)





lemma example_finite:
  "list_all finite_point [origin]"
  "list_all finite_route [untapped_route, tie_route]"
  "list_all finite_route [example_route]"
  "finite_options no_options"
  by (simp_all add: finite_point_def origin_def finite_route_def example_route_def
        untapped_route_def tie_route_def empty_image_def
        finite_image_def example_image_def finite_options_def no_options_def)

subsection \<open>Within the argument limit\<close>

text \<open>On arrays within the argument limit the functions with the error of the spread
  calls agree with the functions without it; beyond the limit they raise.\<close>

lemma spread_ok: "length args \<le> max_args \<Longrightarrow> spread max_args f args = Inr (f args)"
  by (simp add: spread_def)

lemma map_err_ok: "(\<And>v. v \<in> set vs \<Longrightarrow> f v = Inr (g v)) \<Longrightarrow> map_err f vs = Inr (map g vs)"
  by (induction vs) simp_all

lemma mhd_e_ok:
  assumes "length A \<le> max_args" and "length B \<le> max_args"
  shows "modifiedHausdorffDistance_e max_args A B = Inr (modifiedHausdorffDistance A B)"
proof -
  have f: "map_err (\<lambda>a. spread max_args Math_min (map (\<lambda>b. distance a b) B)) A
           = Inr (map (\<lambda>a. Math_min (map (\<lambda>b. distance a b) B)) A)"
    using assms(2) by (intro map_err_ok) (simp add: spread_ok)
  have r: "map_err (\<lambda>b. spread max_args Math_min (map (\<lambda>a. distance a b) A)) B
           = Inr (map (\<lambda>b. Math_min (map (\<lambda>a. distance a b) A)) B)"
    using assms(1) by (intro map_err_ok) (simp add: spread_ok)
  show ?thesis
    unfolding modifiedHausdorffDistance_e_def modifiedHausdorffDistance_def f r
    by (simp add: Let_def)
qed

lemma mhd_e_long:
  assumes "max_args < length B" and "A \<noteq> []"
  shows "modifiedHausdorffDistance_e max_args A B = Inl RangeError"
proof -
  obtain a A' where A: "A = a # A'" using assms(2) by (cases A) auto
  have "B \<noteq> []" using assms(1) by auto
  then show ?thesis
    using assms(1) by (simp add: modifiedHausdorffDistance_e_def A spread_def)
qed

lemma normalize_seq_e_ok:
  "length seq \<le> max_args \<Longrightarrow> normalize_seq_e max_args seq = Inr (normalize_seq seq)"
  by (simp add: normalize_seq_e_def normalize_seq_def spread_ok Let_def)

lemma length_insert_by: "length (insert_by cmp v ws) = Suc (length ws)"
  by (induction ws) simp_all

lemma length_sort_by: "length (sort_by cmp vs) = length vs"
  by (induction vs) (simp_all add: sort_by_def length_insert_by)

lemma ros_e_ok:
  assumes "length A \<le> max_args" and "length B \<le> max_args"
  shows "relativeOrderSimilarity_e max_args A B = relativeOrderSimilarity A B"
  using assms
  by (simp add: relativeOrderSimilarity_e_def relativeOrderSimilarity_def Let_def
        normalize_seq_e_ok length_sort_by)

lemma length_normalizePoints: "length (normalizePoints ps) = length ps"
  by (simp add: normalizePoints_def Let_def)

lemma best_image_loop_e_ok:
  assumes "length nq \<le> max_args" and "length q \<le> max_args"
    and "list_all (\<lambda>img. length (points img) \<le> max_args \<and> length (normalizedPoints img) \<le> max_args) imgs"
  shows "best_image_loop_e max_args q nq opts imgs b bid = best_image_loop q nq opts imgs b bid"
  using assms(3)
  by (induction imgs arbitrary: b bid)
     (simp_all add: mhd_e_ok ros_e_ok assms(1,2) Let_def split: sum.splits)

lemma routes_loop_e_ok:
  assumes "length nq \<le> max_args" and "length q \<le> max_args"
    and "list_all (within_args max_args) routes"
  shows "routes_loop_e max_args q nq opts routes results = routes_loop q nq opts routes results"
  using assms(3)
  by (induction routes arbitrary: results)
     (simp_all add: best_image_loop_e_ok [OF assms(1,2)] within_args_def split: sum.splits prod.splits)

lemma searchRoutes_e_ok:
  assumes "length q \<le> max_args" and "list_all (within_args max_args) routes"
  shows "searchRoutes_e max_args q routes k options = searchRoutes q routes k options"
  using assms
  by (simp add: searchRoutes_e_def searchRoutes_def Let_def routes_loop_e_ok length_normalizePoints)

lemma ros_e_long:
  assumes "max_args < length B" and "A \<noteq> []" and "\<not> (length A = 1 \<and> length B = 1)"
  shows "relativeOrderSimilarity_e max_args A B = Inl RangeError"
proof -
  have "B \<noteq> []" using assms by auto
  then show ?thesis
    using assms
    by (simp add: relativeOrderSimilarity_e_def Let_def normalize_seq_e_def spread_def
          length_sort_by split: sum.splits)
qed
lemma example_within: "list_all (within_args 65535) [example_route]"
  by (simp add: within_args_def example_route_def example_image_def)

subsection \<open>The claims on the search\<close>




text \<open>
  Claim C9, amended. On finite input whose arrays are within the argument limit of the
  engine, and with the arithmetic read over the reals (no intermediate result
  overflows), every core function returns a value and raises nothing:
  \<open>normalizePoints\<close> returns finite points, \<open>modifiedHausdorffDistance\<close> and \<open>dtwDistance\<close> a
  non-negative real or \<open>+\<infinity>\<close>, \<open>distanceToSimilarity\<close> never NaN,
  \<open>relativeOrderSimilarity\<close> and \<open>combinedSimilarity\<close> an integer, and \<open>searchRoutes\<close>
  entries with finite scores. The mean (also of no values) and the min-max normalization
  (also of equal values) are finite.
\<close>

theorem core_total:
  assumes "list_all finite_point q" and "list_all finite_route routes"
    and "finite_options options"
    and "length q \<le> max_args" and "list_all (within_args max_args) routes"
    and "length P \<le> max_args" and "length Q \<le> max_args" and "length xs \<le> max_args"
  shows "(\<exists>N. normalizePoints (map fin_pt P) = map fin_pt N) \<and>
         (\<exists>v. modifiedHausdorffDistance_e max_args (map fin_pt P) (map fin_pt Q) = Inr v \<and>
              nonneg_or_inf v) \<and>
         distanceToSimilarity (Fin d) (Fin M) \<noteq> NaN \<and>
         distanceToSimilarity PInf (Fin M) = Fin 0 \<and>
         (\<exists>v. dtwDistance (map Fin xs) (map Fin ys) = Inr v \<and> nonneg_or_inf v) \<and>
         (\<exists>m. mean (map Fin xs) = Fin m) \<and>
         (\<exists>ns. normalize_seq_e max_args (map Fin xs) = Inr (map Fin ns)) \<and>
         (\<exists>r. relativeOrderSimilarity_e max_args (map fin_pt P) (map fin_pt Q)
                = Inr (Fin (of_int r))) \<and>
         (\<exists>c. combinedSimilarity (Fin a) (Fin b) \<lparr>w_mhd = Fin w1, w_order = Fin w2\<rparr>
                = Fin (of_int c)) \<and>
         (\<exists>res. searchRoutes_e max_args q routes k options = Inr res \<and>
                 list_all (\<lambda>e. is_fin (similarity e)) res)"
proof -
  have inf: "distanceToSimilarity PInf (Fin M) = Fin 0"
    by (simp add: distanceToSimilarity_def num_ge_def)
  have comb: "\<exists>c. combinedSimilarity (Fin a) (Fin b) \<lparr>w_mhd = Fin w1, w_order = Fin w2\<rparr>
                = Fin (of_int c)"
    using combined_fin by blast
  have mhd: "\<exists>v. modifiedHausdorffDistance_e max_args (map fin_pt P) (map fin_pt Q) = Inr v \<and>
              nonneg_or_inf v"
    using assms(6,7) mhd_finite [of P Q] by (simp add: mhd_e_ok)
  have nseq: "\<exists>ns. normalize_seq_e max_args (map Fin xs) = Inr (map Fin ns)"
    using assms(8) normalize_seq_finite [of xs] by (simp add: normalize_seq_e_ok)
  have ros: "\<exists>r. relativeOrderSimilarity_e max_args (map fin_pt P) (map fin_pt Q)
                = Inr (Fin (of_int r))"
    using assms(6,7) relativeOrderSimilarity_finite [of P Q] by (simp add: ros_e_ok)
  obtain scored where
    s: "searchRoutes q routes k options
        = Inr (slice0 (sort_by (\<lambda>a b. num_sub (similarity b) (similarity a)) scored) k)"
    and g: "\<forall>e\<in>set scored. \<exists>zs. scored_entry q (merge_options DEFAULT_OPTIONS options) e zs"
    using searchRoutes_fin [OF assms(1,2,3)] by blast
  have fin: "\<forall>e\<in>set scored. is_fin (similarity e)"
    using g scored_entry_fin by blast
  have "set (sort_by (\<lambda>a b. num_sub (similarity b) (similarity a)) scored) = set scored"
    using sort_by_mset [OF fin] by (rule mset_eq_setD)
  then have "list_all (\<lambda>e. is_fin (similarity e))
               (slice0 (sort_by (\<lambda>a b. num_sub (similarity b) (similarity a)) scored) k)"
    using fin set_slice0 [of "sort_by (\<lambda>a b. num_sub (similarity b) (similarity a)) scored" k]
    unfolding list_all_iff by blast
  with s have search: "\<exists>res. searchRoutes_e max_args q routes k options = Inr res \<and>
                 list_all (\<lambda>e. is_fin (similarity e)) res"
    by (simp add: searchRoutes_e_ok [OF assms(4,5)])
  show ?thesis
    by (intro conjI normalizePoints_finite mhd distanceToSimilarity_value inf
          dtwDistance_finite mean_finite nseq ros comb search)
qed

theorem core_total_witness:
  "list_all finite_point [origin] \<and> list_all finite_route [example_route] \<and>
   finite_options no_options \<and> length [origin] \<le> (65535::nat) \<and>
   list_all (within_args 65535) [example_route] \<and>
   length [(0::real, 0::real), (1, 1)] \<le> (65535::nat) \<and>
   length [(3::real, 0::real), (3, 1)] \<le> (65535::nat) \<and>
   length [0::real, 1] \<le> (65535::nat) \<and>
   searchRoutes_e 65535 [origin] [example_route] 5 no_options
     = Inr [\<lparr>route = example_route, similarity = Fin 100, matchedImageId = ''img-1''\<rparr>]"
proof -
  have l: "length [origin] \<le> (65535::nat)" by simp
  have "searchRoutes [origin] [example_route] 5 no_options
     = Inr [\<lparr>route = example_route, similarity = Fin 100, matchedImageId = ''img-1''\<rparr>]"
    by (simp add: searchRoutes_def merge_options_def DEFAULT_OPTIONS_def no_options_def
        example_normalize example_route_def example_image_def example_mhd example_order
        example_d2s combinedSimilarity_def sort_by_def slice0_def Let_def)
  then have "searchRoutes_e 65535 [origin] [example_route] 5 no_options
     = Inr [\<lparr>route = example_route, similarity = Fin 100, matchedImageId = ''img-1''\<rparr>]"
    by (simp add: searchRoutes_e_ok [OF l example_within])
  then show ?thesis
    using example_finite example_within
      core_total [OF example_finite(1,3,4) l example_within,
        of "[(0, 0), (1, 1)]" "[(3, 0), (3, 1)]" "[0, 1]" 0 1 "[1 / 2, 1 / 2]" 0 0 0 0 5]
    by simp
qed

text \<open>
  Claim C9 as stated fails on arrays of finite numbers. In binary64 arithmetic
  \<open>normalizePoints\<close> of two copies of \<open>(2 powi 1023, 0)\<close> has NaN abscissae; and with an
  argument limit of 65535 an image of 65536 points makes \<open>modifiedHausdorffDistance\<close>,
  \<open>relativeOrderSimilarity\<close> and \<open>searchRoutes\<close> raise a \<^verbatim>\<open>RangeError\<close>.
\<close>

theorem core_total_counterexample:
  "normalizePoints_r binary64
     [\<lparr>px = Fin (2 powi 1023), py = Fin 0\<rparr>, \<lparr>px = Fin (2 powi 1023), py = Fin 0\<rparr>]
     = [\<lparr>px = NaN, py = Fin 0\<rparr>, \<lparr>px = NaN, py = Fin 0\<rparr>] \<and>
   modifiedHausdorffDistance_e 65535 [origin] (replicate 65536 origin) = Inl RangeError \<and>
   relativeOrderSimilarity_e 65535 [origin] (replicate 65536 origin) = Inl RangeError \<and>
   searchRoutes_e 65535 [origin]
     [\<lparr>route_id = ''r'', name = ''long'',
       images = [\<lparr>image_id = ''i'', filename = ''f'', points = replicate 65536 origin,
                  normalizedPoints = replicate 65536 origin\<rparr>],
       createdAt = ''''\<rparr>] 10 no_options = Inl RangeError"
proof -
  have m: "modifiedHausdorffDistance_e 65535 [origin] (replicate 65536 origin) = Inl RangeError"
    by (rule mhd_e_long) simp_all
  have r: "relativeOrderSimilarity_e 65535 [origin] (replicate 65536 origin) = Inl RangeError"
    by (rule ros_e_long) simp_all
  have n1: "normalizePoints [origin] = [origin]"
    by (simp add: normalizePoints_def origin_def)
  have s: "searchRoutes_e 65535 [origin]
     [\<lparr>route_id = ''r'', name = ''long'',
       images = [\<lparr>image_id = ''i'', filename = ''f'', points = replicate 65536 origin,
                  normalizedPoints = replicate 65536 origin\<rparr>],
       createdAt = ''''\<rparr>] 10 no_options = Inl RangeError"
    by (simp add: searchRoutes_e_def Let_def n1 m)
  from normalize_huge m r s show ?thesis by (intro conjI)
qed




end
